theory Spec2Isabelle
  imports Main
begin

section \<open>Strings and regular expressions of the source\<close>

text \<open>
  Utterances are \<^typ>\<open>string\<close>s read as ASCII text. Every number of the source is a
  JavaScript number holding an integer (a \<^verbatim>\<open>parseInt\<close> of a run of digits, or sums
  and products of such); it is modelled as an unbounded \<^typ>\<open>int\<close>, which is exact below
  \<open>2^53\<close>. The one value that is not an integer, the quotient inside the fallback index of
  \<^verbatim>\<open>getTranscriptSegmentBySeconds\<close>, is computed with the rounding of doubles.

  The source decides everything with \<^verbatim>\<open>String.prototype.match\<close> and
  \<^verbatim>\<open>RegExp.prototype.test\<close> on regular-expression literals. The literals are kept as
  data of the type \<open>re\<close> and run by one backtracking matcher that follows the
  ECMAScript rules the literals need: leftmost match, alternatives tried left to right,
  greedy quantifiers that give back one repetition at a time, numbered capture groups, and
  the \<^verbatim>\<open>i\<close> flag.
\<close>

definition upper_chars :: string where
  "upper_chars = ''ABCDEFGHIJKLMNOPQRSTUVWXYZ''"

definition lower_chars :: string where
  "lower_chars = ''abcdefghijklmnopqrstuvwxyz''"

definition digit_chars :: string where
  "digit_chars = ''0123456789''"

definition space_chars :: string where
  \<comment> \<open>\<^verbatim>\<open>\s\<close> on ASCII: tab, line feed, vertical tab, form feed, carriage return, space\<close>
  "space_chars = [CHR 0x09, CHR 0x0A, CHR 0x0B, CHR 0x0C, CHR 0x0D, CHR 0x20]"

definition lower_char :: "char \<Rightarrow> char" where
  "lower_char c = (case map_of (zip upper_chars lower_chars) c of Some l \<Rightarrow> l | None \<Rightarrow> c)"

definition toLowerCase :: "string \<Rightarrow> string" where
  "toLowerCase s = map lower_char s"

datatype cset = CDigit | CWord | CSpace | COneOf string | CUnion cset cset

fun in_cset :: "cset \<Rightarrow> char \<Rightarrow> bool" where
  "in_cset CDigit c = (c \<in> set digit_chars)"
| "in_cset CWord c = (c \<in> set (upper_chars @ lower_chars @ digit_chars @ ''_''))"
| "in_cset CSpace c = (c \<in> set space_chars)"
| "in_cset (COneOf cs) c = (c \<in> set cs)"
| "in_cset (CUnion a b) c = (in_cset a c \<or> in_cset b c)"

datatype re =
    Lit string        \<comment> \<open>a run of literal characters\<close>
  | Cls cset          \<comment> \<open>one character of a class: \<^verbatim>\<open>\d\<close>, \<^verbatim>\<open>\w\<close>, \<^verbatim>\<open>\s\<close>, \<^verbatim>\<open>[..]\<close>\<close>
  | NCls cset         \<comment> \<open>one character outside a class: \<^verbatim>\<open>[^..]\<close>\<close>
  | Seq re re
  | Alt re re         \<comment> \<open>\<^verbatim>\<open>a|b\<close>, left alternative first\<close>
  | Star re           \<comment> \<open>greedy \<^verbatim>\<open>*\<close>\<close>
  | Opt re            \<comment> \<open>greedy \<^verbatim>\<open>?\<close>\<close>
  | Grp nat re        \<comment> \<open>capture group with its number\<close>

definition Plus :: "re \<Rightarrow> re" where
  "Plus r = Seq r (Star r)"

type_synonym caps = "(nat \<times> string) list"
type_synonym mstate = "string \<times> caps"

definition char_eq :: "bool \<Rightarrow> char \<Rightarrow> char \<Rightarrow> bool" where
  "char_eq ci a b = (if ci then lower_char a = lower_char b else a = b)"

fun lit_rest :: "bool \<Rightarrow> string \<Rightarrow> string \<Rightarrow> string option" where
  "lit_rest ci [] s = Some s"
| "lit_rest ci (p # ps) [] = None"
| "lit_rest ci (p # ps) (x # xs) = (if char_eq ci p x then lit_rest ci ps xs else None)"

primrec star_iter :: "nat \<Rightarrow> (mstate \<Rightarrow> mstate list) \<Rightarrow> mstate \<Rightarrow> mstate list" where
  "star_iter 0 step st = [st]"
| "star_iter (Suc n) step st =
     concat (map (star_iter n step)
       (filter (\<lambda>st'. length (fst st') < length (fst st)) (step st))) @ [st]"

text \<open>
  \<open>matches ci r (s, c)\<close> lists, in the order in which a backtracking matcher tries them,
  every way in which \<open>r\<close> matches a prefix of \<open>s\<close>: the text left over and the captures.
  A repetition must consume a character (ECMAScript discards an empty iteration), so the
  length of the remaining text bounds the number of iterations of a star.
\<close>

primrec matches :: "bool \<Rightarrow> re \<Rightarrow> mstate \<Rightarrow> mstate list" where
  "matches ci (Lit p) st =
     (case lit_rest ci p (fst st) of Some s' \<Rightarrow> [(s', snd st)] | None \<Rightarrow> [])"
| "matches ci (Cls k) st =
     (case fst st of [] \<Rightarrow> [] | x # xs \<Rightarrow> if in_cset k x then [(xs, snd st)] else [])"
| "matches ci (NCls k) st =
     (case fst st of [] \<Rightarrow> [] | x # xs \<Rightarrow> if in_cset k x then [] else [(xs, snd st)])"
| "matches ci (Seq a b) st = concat (map (matches ci b) (matches ci a st))"
| "matches ci (Alt a b) st = matches ci a st @ matches ci b st"
| "matches ci (Star r) st = star_iter (length (fst st)) (matches ci r) st"
| "matches ci (Opt r) st = matches ci r st @ [st]"
| "matches ci (Grp i r) st =
     map (\<lambda>st'. (fst st', (i, take (length (fst st) - length (fst st')) (fst st)) # snd st'))
       (matches ci r st)"

text \<open>\<^verbatim>\<open>str.match(re)\<close> without the \<^verbatim>\<open>g\<close> flag: the first match at the leftmost position.\<close>

fun search_re :: "bool \<Rightarrow> re \<Rightarrow> string \<Rightarrow> caps option" where
  "search_re ci r [] = (case matches ci r ([], []) of [] \<Rightarrow> None | st # _ \<Rightarrow> Some (snd st))"
| "search_re ci r (x # xs) =
     (case matches ci r (x # xs, []) of [] \<Rightarrow> search_re ci r xs | st # _ \<Rightarrow> Some (snd st))"

definition test_re :: "bool \<Rightarrow> re \<Rightarrow> string \<Rightarrow> bool" where
  "test_re ci r s = (search_re ci r s \<noteq> None)"

text \<open>
  \<open>cap c i\<close> is \<^verbatim>\<open>match[i]\<close> with \<^verbatim>\<open>undefined\<close> read as the empty string: the source
  only tests a capture for truthiness (both are falsy) or uses a capture that took part in
  the match.
\<close>

definition cap :: "caps \<Rightarrow> nat \<Rightarrow> string" where
  "cap c i = (case map_of c i of Some s \<Rightarrow> s | None \<Rightarrow> [])"

definition digit_val :: "char \<Rightarrow> int" where
  "digit_val c = int (length (takeWhile (\<lambda>d. d \<noteq> c) digit_chars))"

text \<open>\<^verbatim>\<open>parseInt(s, 10)\<close> on a capture of \<^verbatim>\<open>\d+\<close>, the only use the source makes of it.\<close>

definition parseInt :: "string \<Rightarrow> int" where
  "parseInt s = foldl (\<lambda>a c. 10 * a + digit_val c) 0 (takeWhile (\<lambda>c. c \<in> set digit_chars) s)"

definition startsWith :: "string \<Rightarrow> string \<Rightarrow> bool" where
  "startsWith s p = (take (length p) s = p)"

definition trim :: "string \<Rightarrow> string" where
  "trim s = rev (dropWhile (\<lambda>c. c \<in> set space_chars) (rev (dropWhile (\<lambda>c. c \<in> set space_chars) s)))"


fun seqs :: "re list \<Rightarrow> re" where
  "seqs [] = Lit []"
| "seqs [r] = r"
| "seqs (r # rs) = Seq r (seqs rs)"

fun alts :: "re list \<Rightarrow> re" where
  "alts [] = Lit []"
| "alts [r] = r"
| "alts (r # rs) = Alt r (alts rs)"

definition digits :: re where
  \<comment> \<open>\<^verbatim>\<open>\d+\<close>\<close>
  "digits = Plus (Cls CDigit)"

definition two_digits :: re where
  \<comment> \<open>\<^verbatim>\<open>\d{2}\<close>\<close>
  "two_digits = Seq (Cls CDigit) (Cls CDigit)"

definition spaced_words :: re where
  \<comment> \<open>\<^verbatim>\<open>[^\s]+(?: [^\s]+)*\<close>\<close>
  "spaced_words = Seq (Plus (NCls CSpace)) (Star (Seq (Lit '' '') (Plus (NCls CSpace))))"

definition unit_word :: re where
  \<comment> \<open>\<^verbatim>\<open>(minute|hour|second)\<close>, as group 2\<close>
  "unit_word = Grp 2 (alts [Lit ''minute'', Lit ''hour'', Lit ''second''])"

definition unit_word2 :: re where
  \<comment> \<open>\<^verbatim>\<open>(hour|minute|second)\<close>, as group 2\<close>
  "unit_word2 = Grp 2 (alts [Lit ''hour'', Lit ''minute'', Lit ''second''])"

section \<open>The regular expressions of agent.js\<close>

definition re_youtube_host :: re where
  \<comment> \<open>\<^verbatim>\<open>(?:youtube\.com\/watch\?v=|youtu\.be\/|youtube\.com\/embed\/)\<close>\<close>
  "re_youtube_host =
     alts [Lit ''youtube.com/watch?v='', Lit ''youtu.be/'', Lit ''youtube.com/embed/'']"

definition re_youtube_url :: re where
  \<comment> \<open>\<^verbatim>\<open>/(https?:\/\/(?:www\.|m\.)?(?:youtube\.com\/watch\?v=|youtu\.be\/|youtube\.com\/embed\/)[^\s]+)/\<close>\<close>
  "re_youtube_url =
     Grp 1 (seqs [Lit ''http'', Opt (Lit ''s''), Lit ''://'',
                  Opt (Alt (Lit ''www.'') (Lit ''m.'')), re_youtube_host, Plus (NCls CSpace)])"

definition re_video_id :: re where
  \<comment> \<open>\<^verbatim>\<open>/(?:youtube\.com\/watch\?v=|youtu\.be\/|youtube\.com\/embed\/)([^&\n?#]+)/\<close>\<close>
  "re_video_id =
     Seq re_youtube_host (Grp 1 (Plus (NCls (COneOf [CHR ''&'', CHR 0x0A, CHR ''?'', CHR ''#'']))))"

definition re_nth_minute :: re where
  \<comment> \<open>\<^verbatim>\<open>/(\d+)(?:st|nd|rd|th)? minute/\<close>\<close>
  "re_nth_minute =
     seqs [Grp 1 digits, Opt (alts [Lit ''st'', Lit ''nd'', Lit ''rd'', Lit ''th'']),
           Lit '' minute'']"

definition re_at_time :: re where
  \<comment> \<open>\<^verbatim>\<open>/at (\d+):(\d{2})/\<close>\<close>
  "re_at_time = seqs [Lit ''at '', Grp 1 digits, Lit '':'', Grp 2 two_digits]"

definition re_last_minute :: re where
  \<comment> \<open>\<^verbatim>\<open>/last minute/\<close>\<close>
  "re_last_minute = Lit ''last minute''"

definition re_about_topic :: re where
  \<comment> \<open>\<^verbatim>\<open>/about ([\w\s]+)/i\<close>\<close>
  "re_about_topic = Seq (Lit ''about '') (Grp 1 (Plus (Cls (CUnion CWord CSpace))))"

definition re_topic :: re where
  \<comment> \<open>\<^verbatim>\<open>/topic ([\w\s]+)/i\<close>\<close>
  "re_topic = Seq (Lit ''topic '') (Grp 1 (Plus (Cls (CUnion CWord CSpace))))"

definition re_quoted :: re where
  \<comment> \<open>\<^verbatim>\<open>/"([^"]+)"/\<close>\<close>
  "re_quoted = seqs [Lit [CHR 0x22], Grp 1 (Plus (NCls (COneOf [CHR 0x22]))), Lit [CHR 0x22]]"

definition re_sentiment :: re where
  \<comment> \<open>\<^verbatim>\<open>/sentiment|emotion|feeling|tone/i\<close>\<close>
  "re_sentiment = alts [Lit ''sentiment'', Lit ''emotion'', Lit ''feeling'', Lit ''tone'']"

definition re_metadata :: re where
  \<comment> \<open>\<^verbatim>\<open>/channel|views|likes|date|published|duration|length/i\<close>\<close>
  "re_metadata =
     alts [Lit ''channel'', Lit ''views'', Lit ''likes'', Lit ''date'', Lit ''published'',
           Lit ''duration'', Lit ''length'']"

definition re_first :: re where
  \<comment> \<open>\<^verbatim>\<open>/first (\d+) (minute|hour|second)s?/\<close>\<close>
  "re_first = seqs [Lit ''first '', Grp 1 digits, Lit '' '', unit_word, Opt (Lit ''s'')]"

definition re_last :: re where
  \<comment> \<open>\<^verbatim>\<open>/last (\d+) (minute|hour|second)s?/\<close>\<close>
  "re_last = seqs [Lit ''last '', Grp 1 digits, Lit '' '', unit_word, Opt (Lit ''s'')]"

definition re_after_n :: re where
  \<comment> \<open>\<^verbatim>\<open>/after (\d+) (hour|minute|second)s?/\<close>\<close>
  "re_after_n = seqs [Lit ''after '', Grp 1 digits, Lit '' '', unit_word2, Opt (Lit ''s'')]"

definition re_before_n :: re where
  \<comment> \<open>\<^verbatim>\<open>/before (\d+) (hour|minute|second)s?/\<close>\<close>
  "re_before_n = seqs [Lit ''before '', Grp 1 digits, Lit '' '', unit_word2, Opt (Lit ''s'')]"

definition re_h :: re where
  \<comment> \<open>\<^verbatim>\<open>/(\d+)\s*(?:h|hour)/i\<close>\<close>
  "re_h = seqs [Grp 1 digits, Star (Cls CSpace), Alt (Lit ''h'') (Lit ''hour'')]"

definition re_m :: re where
  \<comment> \<open>\<^verbatim>\<open>/(\d+)\s*(?:m|min)/i\<close>\<close>
  "re_m = seqs [Grp 1 digits, Star (Cls CSpace), Alt (Lit ''m'') (Lit ''min'')]"

definition re_s :: re where
  \<comment> \<open>\<^verbatim>\<open>/(\d+)\s*(?:s|sec)/i\<close>\<close>
  "re_s = seqs [Grp 1 digits, Star (Cls CSpace), Alt (Lit ''s'') (Lit ''sec'')]"

definition re_colon :: re where
  \<comment> \<open>\<^verbatim>\<open>/(\d+):(\d{2})(?::(\d{2}))?/\<close>\<close>
  "re_colon =
     seqs [Grp 1 digits, Lit '':'', Grp 2 two_digits, Opt (Seq (Lit '':'') (Grp 3 two_digits))]"

definition re_half_hour :: re where
  \<comment> \<open>\<^verbatim>\<open>/half an hour/\<close>\<close>
  "re_half_hour = Lit ''half an hour''"

definition re_quarter :: re where
  \<comment> \<open>\<^verbatim>\<open>/quarter/\<close>\<close>
  "re_quarter = Lit ''quarter''"

definition re_midway :: re where
  \<comment> \<open>\<^verbatim>\<open>/midway|middle/\<close>\<close>
  "re_midway = Alt (Lit ''midway'') (Lit ''middle'')"

definition re_from_to :: re where
  \<comment> \<open>\<^verbatim>\<open>/from ([^\s]+(?: [^\s]+)*) to ([^\s]+(?: [^\s]+)*)/i\<close>\<close>
  "re_from_to = seqs [Lit ''from '', Grp 1 spaced_words, Lit '' to '', Grp 2 spaced_words]"

definition re_between_and :: re where
  \<comment> \<open>\<^verbatim>\<open>/between ([^\s]+(?: [^\s]+)*) and ([^\s]+(?: [^\s]+)*)/i\<close>\<close>
  "re_between_and =
     seqs [Lit ''between '', Grp 1 spaced_words, Lit '' and '', Grp 2 spaced_words]"

definition re_minutes_to :: re where
  \<comment> \<open>\<^verbatim>\<open>/minutes? (\d+) to (\d+)/i\<close>\<close>
  "re_minutes_to =
     seqs [Lit ''minute'', Opt (Lit ''s''), Lit '' '', Grp 1 digits, Lit '' to '', Grp 2 digits]"

definition re_after :: re where
  \<comment> \<open>\<^verbatim>\<open>/after ([^\s]+(?: [^\s]+)*)/\<close>\<close>
  "re_after = Seq (Lit ''after '') (Grp 1 spaced_words)"

definition re_before :: re where
  \<comment> \<open>\<^verbatim>\<open>/before ([^\s]+(?: [^\s]+)*)/\<close>\<close>
  "re_before = Seq (Lit ''before '') (Grp 1 spaced_words)"

definition re_around :: re where
  \<comment> \<open>\<^verbatim>\<open>/around ([^\s]+(?: [^\s]+)*)/i\<close>\<close>
  "re_around = Seq (Lit ''around '') (Grp 1 spaced_words)"

definition re_about :: re where
  \<comment> \<open>\<^verbatim>\<open>/about ([^\s]+(?: [^\s]+)*)/i\<close>\<close>
  "re_about = Seq (Lit ''about '') (Grp 1 spaced_words)"

section \<open>Data model\<close>

text \<open>
  A transcript chunk is a LangChain document: its text and an optional metadata object.
  Of the metadata the source reads \<^verbatim>\<open>start\<close>, \<^verbatim>\<open>end\<close> and \<^verbatim>\<open>duration\<close>, and counts
  the keys; the ingestion code stores \<^verbatim>\<open>video_id\<close>. A field that is absent is \<open>None\<close>.
\<close>

datatype duration = DurNum int | DurStr string

record metadata =
  md_video_id :: "string option"
  md_start :: "int option"
  md_end :: "int option"
  md_duration :: "duration option"
  md_other :: "string list"    \<comment> \<open>the names of any further keys\<close>

record doc =
  pageContent :: string
  doc_metadata :: "metadata option"

datatype error =
    ReferenceError string   \<comment> \<open>an identifier that is bound nowhere\<close>
  | TypeError string        \<comment> \<open>a property read on \<^verbatim>\<open>undefined\<close>\<close>
  | Thrown string           \<comment> \<open>an error thrown by a collaborator\<close>

datatype timeRef = Minute int | Seconds int | LastMinute

section \<open>URL and video id\<close>

definition extractYoutubeUrl :: "string \<Rightarrow> string option" where
  "extractYoutubeUrl text =
     (case search_re False re_youtube_url text of Some c \<Rightarrow> Some (cap c 1) | None \<Rightarrow> None)"

definition getVideoIdFromUrl :: "string \<Rightarrow> string option" where
  "getVideoIdFromUrl url =
     (case search_re False re_video_id url of Some c \<Rightarrow> Some (cap c 1) | None \<Rightarrow> None)"

section \<open>Timestamp extractor\<close>

definition extractMinuteOrTimestamp :: "string \<Rightarrow> timeRef option" where
  "extractMinuteOrTimestamp text =
     (case search_re False re_nth_minute text of
        Some c \<Rightarrow> Some (Minute (parseInt (cap c 1)))
      | None \<Rightarrow>
         (case search_re False re_at_time text of
            Some c \<Rightarrow> Some (Seconds (parseInt (cap c 1) * 60 + parseInt (cap c 2)))
          | None \<Rightarrow> if test_re False re_last_minute text then Some LastMinute else None))"

section \<open>Segment selectors\<close>

text \<open>\<^verbatim>\<open>Array.prototype.slice(start, end)\<close>: negative indices count from the end, both are clamped.\<close>

definition js_rel_index :: "nat \<Rightarrow> int \<Rightarrow> nat" where
  "js_rel_index len i = (if i < 0 then nat (max (int len + i) 0) else min (nat i) len)"

definition js_slice :: "'a list \<Rightarrow> int \<Rightarrow> int \<Rightarrow> 'a list" where
  "js_slice xs start fin =
     (let k = js_rel_index (length xs) start; e = js_rel_index (length xs) fin
      in take (e - k) (drop k xs))"

definition js_slice_from :: "'a list \<Rightarrow> int \<Rightarrow> 'a list" where
  \<comment> \<open>\<^verbatim>\<open>slice(start)\<close>: to the end of the array\<close>
  "js_slice_from xs start = js_slice xs start (int (length xs))"

text \<open>\<^verbatim>\<open>xs[i]\<close>: \<^verbatim>\<open>undefined\<close> (here \<open>None\<close>) outside the array.\<close>

definition js_index :: "'a list \<Rightarrow> int \<Rightarrow> 'a option" where
  "js_index xs i = (if 0 \<le> i \<and> i < int (length xs) then Some (xs ! nat i) else None)"

definition approxChunkPerMinute :: "doc list \<Rightarrow> int" where
  \<comment> \<open>\<^verbatim>\<open>Math.ceil(docs.length / 10)\<close>\<close>
  "approxChunkPerMinute docs = - ((- int (length docs)) div 10)"

definition getTranscriptSegmentByMinute :: "doc list \<Rightarrow> int \<Rightarrow> doc list" where
  "getTranscriptSegmentByMinute docs minute =
     (if docs = [] then []
      else let startIdx = (minute - 1) * approxChunkPerMinute docs
           in js_slice docs startIdx (startIdx + approxChunkPerMinute docs))"

definition covers :: "int \<Rightarrow> doc \<Rightarrow> bool" where
  \<comment> \<open>\<^verbatim>\<open>d.metadata && d.metadata.start <= seconds && d.metadata.end > seconds\<close>;
      a comparison with \<^verbatim>\<open>undefined\<close> is false\<close>
  "covers seconds d =
     (case doc_metadata d of
        None \<Rightarrow> False
      | Some md \<Rightarrow>
         (case md_start md of
            None \<Rightarrow> False
          | Some a \<Rightarrow> a \<le> seconds \<and> (case md_end md of None \<Rightarrow> False | Some b \<Rightarrow> seconds < b)))"

text \<open>
  The fallback index is \<^verbatim>\<open>Math.floor((seconds / (10 * 60)) * docs.length)\<close>. Its
  intermediate values are not integers, so it is computed as the source computes it, in
  double precision: a double is a pair \<open>(m, e)\<close> standing for \<open>m * 2 ^ e\<close>, the quotient
  and the product are each rounded to 53 significant bits, ties to even, and the floor is
  taken of the rounded product. (Exponents stay far from the limits of the format for
  integers below \<open>2^53\<close>.)
\<close>

function bit_length :: "int \<Rightarrow> int" where
  "bit_length n = (if n \<le> 0 then 0 else 1 + bit_length (n div 2))"
  by pat_completeness auto
termination
  by (relation "measure nat") auto

declare bit_length.simps [simp del]

definition pow2 :: "int \<Rightarrow> int" where
  "pow2 k = 2 ^ nat k"

definition round_div :: "int \<Rightarrow> int \<Rightarrow> int" where
  \<comment> \<open>the integer nearest to \<open>a / b\<close>, a tie going to the even one\<close>
  "round_div a b =
     (let q = a div b; r = a mod b
      in if 2 * r < b then q else if b < 2 * r then q + 1 else if even q then q else q + 1)"

type_synonym double = "int \<times> int"

definition fl_quot :: "int \<Rightarrow> int \<Rightarrow> double" where
  \<comment> \<open>the double \<^verbatim>\<open>a / b\<close> of two positive integers: \<open>E\<close> is the exponent of the exact
      quotient, \<open>2 ^ E \<le> a / b < 2 ^ (E + 1)\<close>\<close>
  "fl_quot a b =
     (let e0 = bit_length a - bit_length b;
          E = (if (if 0 \<le> e0 then b * pow2 e0 \<le> a else b \<le> a * pow2 (- e0))
               then e0 else e0 - 1);
          k = 52 - E
      in if 0 \<le> k then (round_div (a * pow2 k) b, - k)
         else (round_div a (b * pow2 (- k)), - k))"

definition fl_mul :: "double \<Rightarrow> int \<Rightarrow> double" where
  \<comment> \<open>the double \<^verbatim>\<open>x * n\<close> of a non-negative double and a non-negative integer\<close>
  "fl_mul x n =
     (let M = fst x * n; L = bit_length M
      in if L \<le> 53 then (M, snd x)
         else (round_div M (pow2 (L - 53)), snd x + (L - 53)))"

definition floor_double :: "double \<Rightarrow> int" where
  \<comment> \<open>\<^verbatim>\<open>Math.floor\<close>\<close>
  "floor_double x = (if 0 \<le> snd x then fst x * pow2 (snd x) else fst x div pow2 (- snd x))"

definition fallback_index :: "int \<Rightarrow> int \<Rightarrow> int" where
  \<comment> \<open>\<^verbatim>\<open>Math.floor((seconds / 600) * n)\<close>; rounding is symmetric in the sign\<close>
  "fallback_index seconds n =
     (if seconds = 0 then 0
      else let p = fl_mul (fl_quot \<bar>seconds\<bar> 600) n
           in floor_double (sgn seconds * fst p, snd p))"

text \<open>
  The result lists \<^verbatim>\<open>docs[idx]\<close> whatever \<^verbatim>\<open>idx\<close> is, so an element of the result is a
  chunk or \<^verbatim>\<open>undefined\<close> (\<open>None\<close>).
\<close>

definition getTranscriptSegmentBySeconds :: "doc list \<Rightarrow> int \<Rightarrow> doc option list" where
  "getTranscriptSegmentBySeconds docs seconds =
     (if docs = [] then []
      else case find (covers seconds) docs of
             Some found \<Rightarrow> [Some found]
           | None \<Rightarrow> [js_index docs (fallback_index seconds (int (length docs)))])"

definition getTranscriptSegmentLastMinute :: "doc list \<Rightarrow> doc list" where
  "getTranscriptSegmentLastMinute docs =
     (if docs = [] then [] else js_slice_from docs (- approxChunkPerMinute docs))"

text \<open>
  \<^verbatim>\<open>getTranscriptSegmentsByTimeRange\<close> is called by the router (agent.js, line 291), and
  agent.js neither defines nor imports a binding of that name: evaluating the call
  throws a \<^verbatim>\<open>ReferenceError\<close> before any argument is looked at.
\<close>

definition getTranscriptSegmentsByTimeRange :: "doc list \<Rightarrow> int \<Rightarrow> int \<Rightarrow> error + doc list" where
  "getTranscriptSegmentsByTimeRange docs start fin =
     Inl (ReferenceError ''getTranscriptSegmentsByTimeRange'')"

section \<open>Topic, sentiment and metadata detectors\<close>

definition extractTopic :: "string \<Rightarrow> string option" where
  "extractTopic text =
     (case search_re True re_about_topic text of
        Some c \<Rightarrow> Some (trim (cap c 1))
      | None \<Rightarrow>
         (case search_re True re_topic text of
            Some c \<Rightarrow> Some (trim (cap c 1))
          | None \<Rightarrow>
             (case search_re False re_quoted text of
                Some c \<Rightarrow> Some (trim (cap c 1))
              | None \<Rightarrow> None)))"

definition isSentimentRequest :: "string \<Rightarrow> bool" where
  "isSentimentRequest text = test_re True re_sentiment text"

definition isMetadataRequest :: "string \<Rightarrow> bool" where
  "isMetadataRequest text = test_re True re_metadata text"

section \<open>Time-expression parser\<close>

text \<open>
  \<^verbatim>\<open>parseTimeString\<close> is a cascade of rules, each returning when its pattern matches. The
  cascade is split at the rules: \<open>parse_hms\<close> is the part from the composite
  \<^verbatim>\<open>h\<close>/\<^verbatim>\<open>m\<close>/\<^verbatim>\<open>s\<close> form to the end, \<open>parse_before\<close> the part from the \<^verbatim>\<open>before\<close> rule on,
  and so on up to \<open>parseTimeString\<close>, which lowers the text and starts with the
  \<^verbatim>\<open>Nth minute\<close> rule. Each function takes the lowered text.
\<close>

definition parse_hms :: "string \<Rightarrow> int \<Rightarrow> int" where
  "parse_hms str videoDurationSec =
     (let h0 = (case search_re True re_h str of Some c \<Rightarrow> parseInt (cap c 1) | None \<Rightarrow> 0);
          m0 = (case search_re True re_m str of Some c \<Rightarrow> parseInt (cap c 1) | None \<Rightarrow> 0);
          s0 = (case search_re True re_s str of Some c \<Rightarrow> parseInt (cap c 1) | None \<Rightarrow> 0);
          colonMatch = search_re False re_colon str;
          h = (case colonMatch of Some c \<Rightarrow> parseInt (cap c 1) | None \<Rightarrow> h0);
          m = (case colonMatch of Some c \<Rightarrow> parseInt (cap c 2) | None \<Rightarrow> m0);
          s = (case colonMatch of
                 Some c \<Rightarrow> if cap c 3 \<noteq> [] then parseInt (cap c 3) else s0
               | None \<Rightarrow> s0)
      in if test_re False re_half_hour str then 30 * 60
         else if test_re False re_quarter str then 15 * 60
         else if test_re False re_midway str then videoDurationSec div 2
         else h * 3600 + m * 60 + s)"

definition parse_before :: "string \<Rightarrow> int \<Rightarrow> int" where
  "parse_before str videoDurationSec =
     (case search_re False re_before_n str of
        Some c \<Rightarrow>
          (let val = parseInt (cap c 1) in
           if startsWith (cap c 2) ''hour'' then val * 3600
           else if startsWith (cap c 2) ''minute'' then val * 60
           else if startsWith (cap c 2) ''second'' then val
           else parse_hms str videoDurationSec)
      | None \<Rightarrow> parse_hms str videoDurationSec)"

definition parse_after :: "string \<Rightarrow> int \<Rightarrow> int" where
  "parse_after str videoDurationSec =
     (case search_re False re_after_n str of
        Some c \<Rightarrow>
          (let val = parseInt (cap c 1) in
           if startsWith (cap c 2) ''hour'' then val * 3600
           else if startsWith (cap c 2) ''minute'' then val * 60
           else if startsWith (cap c 2) ''second'' then val
           else parse_before str videoDurationSec)
      | None \<Rightarrow> parse_before str videoDurationSec)"

definition parse_last :: "string \<Rightarrow> int \<Rightarrow> int" where
  "parse_last str videoDurationSec =
     (case search_re False re_last str of
        Some c \<Rightarrow>
          (let val = parseInt (cap c 1) in
           if startsWith (cap c 2) ''hour'' then videoDurationSec - val * 3600
           else if startsWith (cap c 2) ''minute'' then videoDurationSec - val * 60
           else if startsWith (cap c 2) ''second'' then videoDurationSec - val
           else parse_after str videoDurationSec)
      | None \<Rightarrow> parse_after str videoDurationSec)"

definition parse_first :: "string \<Rightarrow> int \<Rightarrow> int" where
  "parse_first str videoDurationSec =
     (case search_re False re_first str of
        Some c \<Rightarrow>
          (if startsWith (cap c 2) ''hour'' then 0
           else if startsWith (cap c 2) ''minute'' then 0
           else if startsWith (cap c 2) ''second'' then 0
           else parse_last str videoDurationSec)
      | None \<Rightarrow> parse_last str videoDurationSec)"

definition parseTimeString :: "string \<Rightarrow> int \<Rightarrow> int" where
  "parseTimeString str0 videoDurationSec =
     (let str = toLowerCase str0 in
      case search_re False re_nth_minute str of
        Some c \<Rightarrow> parseInt (cap c 1) * 60
      | None \<Rightarrow> parse_first str videoDurationSec)"

definition default_duration :: int where
  \<comment> \<open>the default value of the parameter \<^verbatim>\<open>videoDurationSec\<close>: three hours\<close>
  "default_duration = 10800"

section \<open>Time-range extractor\<close>

text \<open>
  A range is the pair \<open>(start, end)\<close> of the object \<^verbatim>\<open>{ start, end }\<close>; \<open>None\<close> is
  \<^verbatim>\<open>null\<close>. The families are tried in the order of the source; as for the parser, the
  cascade is split at the families, \<open>extractTimeRange\<close> being the whole of it.
\<close>

type_synonym timeRange = "int \<times> int"

definition range_around :: "string \<Rightarrow> int \<Rightarrow> timeRange option" where
  "range_around text videoDurationSec =
     (let aroundMatch =
            (case search_re True re_around text of
               Some c \<Rightarrow> Some c
             | None \<Rightarrow>
                (case search_re True re_about text of
                   Some c \<Rightarrow> Some c
                 | None \<Rightarrow> search_re False re_midway text))
      in case aroundMatch of
           Some c \<Rightarrow>
             (let center = parseTimeString (if cap c 1 \<noteq> [] then cap c 1 else ''midway'')
                              videoDurationSec
              in Some (max 0 (center - 60), center + 60))
         | None \<Rightarrow> None)"

definition range_before :: "string \<Rightarrow> int \<Rightarrow> timeRange option" where
  "range_before text videoDurationSec =
     (case search_re False re_before text of
        Some c \<Rightarrow> Some (0, parseTimeString (cap c 1) videoDurationSec)
      | None \<Rightarrow> range_around text videoDurationSec)"

definition range_after :: "string \<Rightarrow> int \<Rightarrow> timeRange option" where
  "range_after text videoDurationSec =
     (case search_re False re_after text of
        Some c \<Rightarrow> Some (parseTimeString (cap c 1) videoDurationSec, videoDurationSec)
      | None \<Rightarrow> range_before text videoDurationSec)"

definition range_last :: "string \<Rightarrow> int \<Rightarrow> timeRange option" where
  "range_last text videoDurationSec =
     (case search_re False re_last text of
        Some c \<Rightarrow>
          (let start0 = videoDurationSec;
               start1 = (if startsWith (cap c 2) ''hour''
                         then start0 - parseInt (cap c 1) * 3600 else start0);
               start2 = (if startsWith (cap c 2) ''minute''
                         then start1 - parseInt (cap c 1) * 60 else start1);
               start3 = (if startsWith (cap c 2) ''second''
                         then start2 - parseInt (cap c 1) else start2)
           in Some (start3, videoDurationSec))
      | None \<Rightarrow> range_after text videoDurationSec)"

definition range_first :: "string \<Rightarrow> int \<Rightarrow> timeRange option" where
  "range_first text videoDurationSec =
     (case search_re False re_first text of
        Some c \<Rightarrow>
          (let end0 = 0;
               end1 = (if startsWith (cap c 2) ''hour'' then parseInt (cap c 1) * 3600 else end0);
               end2 = (if startsWith (cap c 2) ''minute'' then parseInt (cap c 1) * 60 else end1);
               end3 = (if startsWith (cap c 2) ''second'' then parseInt (cap c 1) else end2)
           in Some (0, end3))
      | None \<Rightarrow> range_last text videoDurationSec)"

definition rangeMatch :: "string \<Rightarrow> caps option" where
  \<comment> \<open>the three \<^verbatim>\<open>text.match(..)\<close> joined by \<^verbatim>\<open>||\<close>\<close>
  "rangeMatch text =
     (case search_re True re_from_to text of
        Some c \<Rightarrow> Some c
      | None \<Rightarrow>
         (case search_re True re_between_and text of
            Some c \<Rightarrow> Some c
          | None \<Rightarrow> search_re True re_minutes_to text))"

text \<open>
  The guard \<^verbatim>\<open>!isNaN(start) && !isNaN(end)\<close> always holds for integers, so a match of an
  explicit range returns.
\<close>

definition extractTimeRange :: "string \<Rightarrow> int \<Rightarrow> timeRange option" where
  "extractTimeRange text videoDurationSec =
     (case rangeMatch text of
        Some c \<Rightarrow>
          (if cap c 3 \<noteq> [] \<and> cap c 4 \<noteq> []
           then Some (parseInt (cap c 3) * 60, parseInt (cap c 4) * 60)
           else Some (parseTimeString (cap c 1) videoDurationSec,
                      parseTimeString (cap c 2) videoDurationSec))
      | None \<Rightarrow> range_first text videoDurationSec)"

section \<open>The router\<close>

text \<open>
  The collaborators are parameters: \<open>similaritySearch\<close> is
  \<^verbatim>\<open>vectorStore.similaritySearch(query, k, { video_id })\<close> and either returns chunks or
  throws; \<open>triggerYoutubeVideoScrape\<close> returns (\<open>None\<close>) or throws (\<open>Some\<close>). The
  completions of the language models are not modelled: a reply records which
  \<^verbatim>\<open>return\<close> of \<^verbatim>\<open>agent\<close> is reached and the chunks handed to analysis there.
\<close>

record env =
  similaritySearch :: "string \<Rightarrow> nat \<Rightarrow> string \<Rightarrow> error + doc list"
  triggerYoutubeVideoScrape :: "string \<Rightarrow> error option"

datatype reply =
    TimeRange "doc list"      \<comment> \<open>line 294: analysis of the range segment\<close>
  | Timestamp "doc list"      \<comment> \<open>line 310: analysis of the timestamp segment\<close>
  | Topic "doc list"          \<comment> \<open>line 319: analysis of the topic chunks\<close>
  | Sentiment "doc list"      \<comment> \<open>line 326: sentiment of the whole transcript\<close>
  | MetadataAnswer metadata   \<comment> \<open>line 332\<close>
  | MetadataUnavailable       \<comment> \<open>line 334: 'Sorry, video metadata is not available.'\<close>
  | FullSummary "doc list"    \<comment> \<open>line 339\<close>
  | ScrapeStarted             \<comment> \<open>line 345: 'The video is being scraped. ...'\<close>
  | ScrapeFailed              \<comment> \<open>line 348: 'Failed to trigger scraping for this video.'\<close>
  | Passthrough string        \<comment> \<open>line 354: the utterance handed to the summarizer model\<close>

datatype log_entry =
    RetrievalErrorLogged error   \<comment> \<open>\<^verbatim>\<open>console.error('Vector store retrieval error:', err)\<close>\<close>
  | ScrapeErrorLogged error      \<comment> \<open>\<^verbatim>\<open>console.error('Failed to trigger scrape:', err)\<close>\<close>

record outcome =
  logged :: "log_entry list"
  scrape_calls :: "string list"
  result :: "error + reply"

text \<open>
  \<^verbatim>\<open>analyzeTranscriptSegment\<close> starts with \<^verbatim>\<open>docs.map((d) => d.pageContent)\<close>, which throws
  a \<^verbatim>\<open>TypeError\<close> at an element that is \<^verbatim>\<open>undefined\<close>.
\<close>

fun analyzed_docs :: "doc option list \<Rightarrow> error + doc list" where
  "analyzed_docs [] = Inr []"
| "analyzed_docs (None # ds) = Inl (TypeError ''pageContent'')"
| "analyzed_docs (Some d # ds) =
     (case analyzed_docs ds of Inl e \<Rightarrow> Inl e | Inr r \<Rightarrow> Inr (d # r))"

definition key_count :: "metadata \<Rightarrow> nat" where
  \<comment> \<open>\<^verbatim>\<open>Object.keys(metadata).length\<close>\<close>
  "key_count md =
     (if md_video_id md = None then 0 else 1) + (if md_start md = None then 0 else 1)
     + (if md_end md = None then 0 else 1) + (if md_duration md = None then 0 else 1)
     + length (md_other md)"

definition route_rest :: "string \<Rightarrow> doc list \<Rightarrow> metadata option \<Rightarrow> error + reply" where
  \<comment> \<open>steps 3 to 5: sentiment, metadata, summary of the whole video\<close>
  "route_rest input docs md =
     (if isSentimentRequest input then Inr (Sentiment docs)
      else if isMetadataRequest input then
        (case md of
           None \<Rightarrow> Inr MetadataUnavailable
         | Some m \<Rightarrow> if key_count m \<noteq> 0 then Inr (MetadataAnswer m) else Inr MetadataUnavailable)
      else Inr (FullSummary docs))"

definition route_topic ::
  "env \<Rightarrow> string \<Rightarrow> string \<Rightarrow> doc list \<Rightarrow> metadata option \<Rightarrow> error + reply" where
  \<comment> \<open>step 2; \<^verbatim>\<open>if (topic)\<close> is false for \<^verbatim>\<open>null\<close> and for the empty string\<close>
  "route_topic e input videoId docs md =
     (case extractTopic input of
        None \<Rightarrow> route_rest input docs md
      | Some topic \<Rightarrow>
          if topic = [] then route_rest input docs md
          else (case similaritySearch e topic 4 videoId of
                  Inl err \<Rightarrow> Inl err
                | Inr topicDocs \<Rightarrow>
                    if topicDocs \<noteq> [] then Inr (Topic topicDocs)
                    else route_rest input docs md))"

definition timestamp_segment :: "doc list \<Rightarrow> timeRef \<Rightarrow> doc option list" where
  \<comment> \<open>the chain \<^verbatim>\<open>if (timeRef.minute) .. else if (timeRef.seconds) .. else if (timeRef.lastMinute)\<close>:
      a field that is absent or 0 is falsy\<close>
  "timestamp_segment docs timeRef =
     (case timeRef of
        Minute m \<Rightarrow> if m \<noteq> 0 then map Some (getTranscriptSegmentByMinute docs m) else []
      | Seconds s \<Rightarrow> if s \<noteq> 0 then getTranscriptSegmentBySeconds docs s else []
      | LastMinute \<Rightarrow> map Some (getTranscriptSegmentLastMinute docs))"

definition route_timestamp ::
  "env \<Rightarrow> string \<Rightarrow> string \<Rightarrow> doc list \<Rightarrow> metadata option \<Rightarrow> error + reply" where
  \<comment> \<open>step 1\<close>
  "route_timestamp e input videoId docs md =
     (case extractMinuteOrTimestamp input of
        None \<Rightarrow> route_topic e input videoId docs md
      | Some timeRef \<Rightarrow>
          (let segment = timestamp_segment docs timeRef in
           if segment \<noteq> [] then
             (case analyzed_docs segment of Inl err \<Rightarrow> Inl err | Inr ds \<Rightarrow> Inr (Timestamp ds))
           else route_topic e input videoId docs md))"

definition route ::
  "env \<Rightarrow> string \<Rightarrow> string \<Rightarrow> doc list \<Rightarrow> metadata option \<Rightarrow> int \<Rightarrow> error + reply" where
  \<comment> \<open>the body of \<^verbatim>\<open>if (docs.length > 0)\<close>, from step 0 on\<close>
  "route e input videoId docs md videoDurationSec =
     (case extractTimeRange input videoDurationSec of
        None \<Rightarrow> route_timestamp e input videoId docs md
      | Some r \<Rightarrow>
          (case getTranscriptSegmentsByTimeRange docs (fst r) (snd r) of
             Inl err \<Rightarrow> Inl err
           | Inr segment \<Rightarrow>
               if segment \<noteq> [] then Inr (TimeRange segment)
               else route_timestamp e input videoId docs md))"

definition videoDuration :: "metadata option \<Rightarrow> int" where
  \<comment> \<open>lines 270 to 280: the duration of the metadata when it is truthy, else three hours\<close>
  "videoDuration md =
     (case md of
        None \<Rightarrow> 10800
      | Some m \<Rightarrow>
         (case md_duration m of
            None \<Rightarrow> 10800
          | Some (DurNum n) \<Rightarrow> if n \<noteq> 0 then n else 10800
          | Some (DurStr s) \<Rightarrow> if s \<noteq> [] then parseTimeString s default_duration else 10800))"

definition no_transcript :: "env \<Rightarrow> string \<Rightarrow> log_entry list \<Rightarrow> outcome" where
  \<comment> \<open>lines 342 to 349: no chunks, trigger the scrape\<close>
  "no_transcript e youtubeUrl logs =
     (case triggerYoutubeVideoScrape e youtubeUrl of
        None \<Rightarrow> \<lparr>logged = logs, scrape_calls = [youtubeUrl], result = Inr ScrapeStarted\<rparr>
      | Some err \<Rightarrow>
          \<lparr>logged = logs @ [ScrapeErrorLogged err], scrape_calls = [youtubeUrl],
           result = Inr ScrapeFailed\<rparr>)"

definition agent :: "env \<Rightarrow> string \<Rightarrow> outcome" where
  "agent e input =
     (case extractYoutubeUrl input of
        None \<Rightarrow> \<lparr>logged = [], scrape_calls = [], result = Inr (Passthrough input)\<rparr>
      | Some youtubeUrl \<Rightarrow>
         (case getVideoIdFromUrl youtubeUrl of
            None \<Rightarrow> no_transcript e youtubeUrl []
          | Some videoId \<Rightarrow>
             (case similaritySearch e [] 40 videoId of
                Inl err \<Rightarrow> no_transcript e youtubeUrl [RetrievalErrorLogged err]
              | Inr docs \<Rightarrow>
                  if docs \<noteq> [] then
                    \<lparr>logged = [], scrape_calls = [],
                     result = route e input videoId docs (doc_metadata (hd docs))
                                (videoDuration (doc_metadata (hd docs)))\<rparr>
                  else no_transcript e youtubeUrl [])))"

section \<open>Sample data\<close>

text \<open>
  A chunk as the ingestion code stores it (no timing metadata), a store that returns the
  same chunks for every query, and a store whose every retrieval throws.
\<close>

definition sample_chunk :: doc where
  "sample_chunk =
     \<lparr>pageContent = ''welcome to the channel'',
      doc_metadata = Some \<lparr>md_video_id = Some ''abc'', md_start = None, md_end = None,
                           md_duration = None, md_other = [''loc'']\<rparr>\<rparr>"

definition store_of :: "doc list \<Rightarrow> env" where
  "store_of ds =
     \<lparr>similaritySearch = (\<lambda>query k videoId. Inr ds),
      triggerYoutubeVideoScrape = (\<lambda>url. None)\<rparr>"

definition broken_store :: env where
  "broken_store =
     \<lparr>similaritySearch = (\<lambda>query k videoId. Inl (Thrown ''connection refused'')),
      triggerYoutubeVideoScrape = (\<lambda>url. None)\<rparr>"

text \<open>A store that returns the chunk for the empty query and throws for any other.\<close>

definition topic_broken_store :: env where
  "topic_broken_store =
     \<lparr>similaritySearch =
        (\<lambda>query k videoId.
           if query = [] then Inr [sample_chunk] else Inl (Thrown ''connection refused'')),
      triggerYoutubeVideoScrape = (\<lambda>url. None)\<rparr>"

section \<open>What a match captures\<close>

text \<open>
  Every result of the matcher splits the text into what was consumed and what is left;
  for the patterns of the form \<^verbatim>\<open>word (\d+) (unit|unit|unit)s?\<close> the captures of a match
  are a non-empty run of digits and one of the three unit words.
\<close>

lemma lit_rest_exact: "lit_rest False p s = Some s' \<longleftrightarrow> s = p @ s'"
  by (induction False p s rule: lit_rest.induct) (auto simp: char_eq_def)

lemma in_lit:
  "st \<in> set (matches False (Lit p) s0) \<longleftrightarrow> fst s0 = p @ fst st \<and> snd st = snd s0"
proof (cases "lit_rest False p (fst s0)")
  case None
  then have "\<not> fst s0 = p @ fst st" using lit_rest_exact [of p "fst s0" "fst st"] by simp
  with None show ?thesis by simp
next
  case (Some s')
  then have "fst s0 = p @ s'" by (simp add: lit_rest_exact)
  with Some show ?thesis by (cases st) auto
qed

lemma in_cls:
  "s1 \<in> set (matches ci (Cls k) s0) \<longleftrightarrow>
   (\<exists>x. fst s0 = x # fst s1 \<and> in_cset k x \<and> snd s1 = snd s0)"
  by (cases s1; cases "fst s0") auto

lemma in_seq:
  "st \<in> set (matches ci (Seq a b) s0) \<longleftrightarrow>
   (\<exists>s1 \<in> set (matches ci a s0). st \<in> set (matches ci b s1))"
  by auto

lemma in_grp:
  "st \<in> set (matches ci (Grp i r) s0) \<longleftrightarrow>
   (\<exists>s1 \<in> set (matches ci r s0).
      st = (fst s1, (i, take (length (fst s0) - length (fst s1)) (fst s0)) # snd s1))"
  by auto

lemma in_alt:
  "st \<in> set (matches ci (Alt a b) s0) \<longleftrightarrow>
   st \<in> set (matches ci a s0) \<or> st \<in> set (matches ci b s0)"
  by auto

lemma in_opt:
  "st \<in> set (matches ci (Opt r) s0) \<longleftrightarrow> st \<in> set (matches ci r s0) \<or> st = s0"
  by auto

lemma in_star_iter_Suc:
  "st \<in> set (star_iter (Suc n) step s0) \<longleftrightarrow>
   st = s0 \<or> (\<exists>s1 \<in> set (step s0). length (fst s1) < length (fst s0) \<and> st \<in> set (star_iter n step s1))"
  by auto

lemma star_digit_sound:
  "st \<in> set (star_iter n (matches ci (Cls CDigit)) s0) \<Longrightarrow>
   \<exists>ds. set ds \<subseteq> set digit_chars \<and> fst s0 = ds @ fst st \<and> snd st = snd s0"
proof (induction n arbitrary: s0)
  case 0
  then show ?case by simp
next
  case (Suc n)
  from Suc.prems consider (stop) "st = s0"
    | (step) s1 where "s1 \<in> set (matches ci (Cls CDigit) s0)"
        "st \<in> set (star_iter n (matches ci (Cls CDigit)) s1)"
    unfolding in_star_iter_Suc by blast
  then show ?case
  proof cases
    case stop
    then show ?thesis by simp
  next
    case step
    from step(1) obtain x where x: "fst s0 = x # fst s1" "x \<in> set digit_chars" "snd s1 = snd s0"
      unfolding in_cls by auto
    from Suc.IH [OF step(2)] obtain ds where
      "set ds \<subseteq> set digit_chars" "fst s1 = ds @ fst st" "snd st = snd s1" by blast
    with x have "set (x # ds) \<subseteq> set digit_chars \<and> fst s0 = (x # ds) @ fst st \<and> snd st = snd s0"
      by simp
    then show ?thesis by blast
  qed
qed

lemma digits_sound:
  assumes "st \<in> set (matches ci digits s0)"
  shows "\<exists>ds. ds \<noteq> [] \<and> set ds \<subseteq> set digit_chars \<and> fst s0 = ds @ fst st \<and> snd st = snd s0"
proof -
  from assms obtain s1 where s1: "s1 \<in> set (matches ci (Cls CDigit) s0)"
    and st: "st \<in> set (matches ci (Star (Cls CDigit)) s1)"
    unfolding digits_def Plus_def in_seq by blast
  from s1 obtain x where x: "fst s0 = x # fst s1" "x \<in> set digit_chars" "snd s1 = snd s0"
    unfolding in_cls by auto
  from st have "st \<in> set (star_iter (length (fst s1)) (matches ci (Cls CDigit)) s1)" by simp
  from star_digit_sound [OF this] obtain ds where
    "set ds \<subseteq> set digit_chars" "fst s1 = ds @ fst st" "snd st = snd s1" by blast
  with x have "x # ds \<noteq> [] \<and> set (x # ds) \<subseteq> set digit_chars \<and> fst s0 = (x # ds) @ fst st \<and> snd st = snd s0"
    by simp
  then show ?thesis by blast
qed

lemma search_re_sound:
  "search_re ci r s = Some c \<Longrightarrow> \<exists>t st. st \<in> set (matches ci r (t, [])) \<and> c = snd st"
proof (induction s)
  case Nil
  then obtain st rest where m: "matches ci r ([], []) = st # rest" and c: "c = snd st"
    by (cases "matches ci r ([], [])") auto
  from m have "st \<in> set (matches ci r ([], []))" by simp
  with c show ?case by blast
next
  case (Cons x xs)
  show ?case
  proof (cases "matches ci r (x # xs, [])")
    case Nil
    with Cons show ?thesis by simp
  next
    case (Cons st rest)
    with Cons.prems have "st \<in> set (matches ci r (x # xs, []))" "c = snd st" by auto
    then show ?thesis by blast
  qed
qed

lemma n_unit_sound:
  assumes "st \<in> set (matches False (seqs [Lit w, Grp 1 digits, Lit '' '', Grp 2 (alts [Lit a, Lit b, Lit d]), Opt (Lit ''s'')]) (t, []))"
  shows "\<exists>ds u. snd st = [(2, u), (1, ds)] \<and> ds \<noteq> [] \<and> set ds \<subseteq> set digit_chars \<and> u \<in> {a, b, d}"
proof -
  from assms obtain s1 s2 s3 s4 where
    s1: "s1 \<in> set (matches False (Lit w) (t, []))" and
    s2: "s2 \<in> set (matches False (Grp 1 digits) s1)" and
    s3: "s3 \<in> set (matches False (Lit '' '') s2)" and
    s4: "s4 \<in> set (matches False (Grp 2 (Alt (Lit a) (Alt (Lit b) (Lit d)))) s3)" and
    st: "st \<in> set (matches False (Opt (Lit ''s'')) s4)"
    unfolding seqs.simps alts.simps in_seq by blast
  from s1 have c1: "snd s1 = []" unfolding in_lit by simp
  from s2 obtain s2' where s2': "s2' \<in> set (matches False digits s1)"
    and s2eq: "s2 = (fst s2', (1, take (length (fst s1) - length (fst s2')) (fst s1)) # snd s2')"
    unfolding in_grp by blast
  from digits_sound [OF s2'] obtain ds where ds: "ds \<noteq> []" "set ds \<subseteq> set digit_chars"
    "fst s1 = ds @ fst s2'" "snd s2' = snd s1" by blast
  from s2eq ds c1 have c2: "snd s2 = [(1, ds)]" by simp
  from s3 c2 have c3: "snd s3 = [(1, ds)]" unfolding in_lit by simp
  from s4 obtain s4' where s4': "s4' \<in> set (matches False (Alt (Lit a) (Alt (Lit b) (Lit d))) s3)"
    and s4eq: "s4 = (fst s4', (2, take (length (fst s3) - length (fst s4')) (fst s3)) # snd s4')"
    unfolding in_grp by blast
  from s4' obtain u where u: "u \<in> {a, b, d}" "fst s3 = u @ fst s4'" "snd s4' = snd s3"
    unfolding in_alt in_lit by blast
  from s4eq u c3 have c4: "snd s4 = [(2, u), (1, ds)]" by simp
  from st have "snd st = snd s4" unfolding in_opt in_lit by auto
  with c4 ds u show ?thesis by auto
qed

section \<open>Runs of digits\<close>

text \<open>
  The phrases of the claims carry a number \<open>N\<close>, any non-empty run of digits. A group
  \<^verbatim>\<open>(\d+)\<close> followed by a pattern that cannot start at a digit takes the whole run, and a
  search passes over a run on which the pattern fails.
\<close>

lemma lower_char_digit: "x \<in> set digit_chars \<Longrightarrow> lower_char x = x"
proof -
  assume "x \<in> set digit_chars"
  then have "x \<notin> set upper_chars" by (auto simp: digit_chars_def upper_chars_def)
  then have "map_of (zip upper_chars lower_chars) x = None"
    by (simp add: map_of_eq_None_iff upper_chars_def lower_chars_def)
  then show ?thesis by (simp add: lower_char_def)
qed

lemma toLowerCase_digits: "set ds \<subseteq> set digit_chars \<Longrightarrow> toLowerCase ds = ds"
  unfolding toLowerCase_def by (rule map_idI) (auto simp: lower_char_digit)

lemma toLowerCase_append: "toLowerCase (a @ b) = toLowerCase a @ toLowerCase b"
  by (simp add: toLowerCase_def)

lemma star_iter_Suc_single:
  assumes "step st = [st']" and "length (fst st') < length (fst st)"
  shows "star_iter (Suc n) step st = star_iter n step st' @ [st]"
  using assms by simp

lemma star_iter_dead:
  assumes "step st = []"
  shows "star_iter n step st = [st]"
  using assms by (cases n) simp_all

lemma cls_digit_step:
  "d \<in> set digit_chars \<Longrightarrow> matches ci (Cls CDigit) (d # xs, c) = [(xs, c)]"
  by simp

lemma cls_digit_dead:
  "rest = [] \<or> hd rest \<notin> set digit_chars \<Longrightarrow> matches ci (Cls CDigit) (rest, c) = []"
  by (cases rest) auto

lemma star_digit_concat:
  assumes fail: "\<And>x xs c'. x \<in> set digit_chars \<Longrightarrow> f (x # xs, c') = []"
    and rest: "rest = [] \<or> hd rest \<notin> set digit_chars"
  shows "set ds \<subseteq> set digit_chars \<Longrightarrow> length ds \<le> n \<Longrightarrow>
         concat (map f (star_iter n (matches ci (Cls CDigit)) (ds @ rest, c))) = f (rest, c)"
proof (induction ds arbitrary: n)
  case Nil
  show ?case
    using star_iter_dead [of "matches ci (Cls CDigit)" "(rest, c)" n] cls_digit_dead [OF rest, of ci c]
    by (simp del: matches.simps)
next
  case (Cons d ds)
  from Cons.prems obtain m where n: "n = Suc m" and m: "length ds \<le> m"
    by (cases n) auto
  from Cons.prems have d: "d \<in> set digit_chars" and ds: "set ds \<subseteq> set digit_chars" by auto
  have it: "star_iter (Suc m) (matches ci (Cls CDigit)) (d # ds @ rest, c)
            = star_iter m (matches ci (Cls CDigit)) (ds @ rest, c) @ [(d # ds @ rest, c)]"
    using star_iter_Suc_single [of "matches ci (Cls CDigit)" "(d # ds @ rest, c)" "(ds @ rest, c)" m]
      cls_digit_step [OF d, of ci "ds @ rest" c]
    by (simp del: matches.simps)
  have "concat (map f (star_iter n (matches ci (Cls CDigit)) ((d # ds) @ rest, c)))
        = concat (map f (star_iter m (matches ci (Cls CDigit)) (ds @ rest, c))) @ f (d # ds @ rest, c)"
    unfolding n append_Cons it by (simp del: matches.simps)
  also have "\<dots> = f (rest, c)"
    unfolding Cons.IH [OF ds m] fail [OF d] by (simp del: matches.simps)
  finally show ?case .
qed

lemma digits_unfold:
  "d \<in> set digit_chars \<Longrightarrow>
   matches ci digits (d # xs, c) = star_iter (length xs) (matches ci (Cls CDigit)) (xs, c)"
  by (simp add: digits_def Plus_def)

lemma seq_grp_unfold:
  "matches ci (Seq (Grp i r) R) st =
   concat (map (\<lambda>st'. matches ci R
      (fst st', (i, take (length (fst st) - length (fst st')) (fst st)) # snd st'))
      (matches ci r st))"
  by (simp add: map_map comp_def)

lemma seq_digits:
  assumes fail: "\<And>x xs c'. x \<in> set digit_chars \<Longrightarrow> matches ci R (x # xs, c') = []"
    and rest: "rest = [] \<or> hd rest \<notin> set digit_chars"
    and ds: "ds \<noteq> []" "set ds \<subseteq> set digit_chars"
  shows "matches ci (Seq (Grp i digits) R) (ds @ rest, c) = matches ci R (rest, (i, ds) # c)"
proof -
  from ds obtain d ds' where eq: "ds = d # ds'" and d: "d \<in> set digit_chars"
    and ds': "set ds' \<subseteq> set digit_chars"
    by (cases ds) auto
  define f where "f = (\<lambda>st'. matches ci R
      (fst st', (i, take (length (fst (ds @ rest, c)) - length (fst st')) (fst (ds @ rest, c))) # snd st'))"
  have ffail: "\<And>x xs c'. x \<in> set digit_chars \<Longrightarrow> f (x # xs, c') = []"
    by (simp add: f_def fail del: matches.simps)
  have len: "length ds' \<le> length (ds' @ rest)" by simp
  have "matches ci (Seq (Grp i digits) R) (ds @ rest, c)
        = concat (map f (matches ci digits (ds @ rest, c)))"
    unfolding seq_grp_unfold f_def ..
  also have "matches ci digits (ds @ rest, c)
        = star_iter (length (ds' @ rest)) (matches ci (Cls CDigit)) (ds' @ rest, c)"
    unfolding eq append_Cons by (rule digits_unfold [OF d])
  also have "concat (map f (star_iter (length (ds' @ rest)) (matches ci (Cls CDigit)) (ds' @ rest, c)))
        = f (rest, c)"
    using star_digit_concat [of f rest ds' "length (ds' @ rest)" ci c] ffail rest ds' len
    by blast
  also have "\<dots> = matches ci R (rest, (i, ds) # c)"
    by (simp add: f_def del: matches.simps)
  finally show ?thesis .
qed

lemma search_skip:
  assumes fail: "\<And>x xs c. x \<in> set digit_chars \<Longrightarrow> matches ci r (x # xs, c) = []"
  shows "set ds \<subseteq> set digit_chars \<Longrightarrow> search_re ci r (ds @ rest) = search_re ci r rest"
proof (induction ds)
  case Nil
  show ?case by simp
next
  case (Cons d ds)
  then have d: "d \<in> set digit_chars" and ds: "set ds \<subseteq> set digit_chars" by auto
  have "search_re ci r ((d # ds) @ rest) = search_re ci r (ds @ rest)"
    unfolding append_Cons search_re.simps fail [OF d] by (simp del: matches.simps)
  with Cons.IH [OF ds] show ?case by simp
qed

lemma search_digits_fail:
  assumes fail: "\<And>x xs c'. x \<in> set digit_chars \<Longrightarrow> matches ci R (x # xs, c') = []"
    and rest: "rest = [] \<or> hd rest \<notin> set digit_chars"
    and dead: "\<And>c. matches ci R (rest, c) = []"
  shows "set ds \<subseteq> set digit_chars \<Longrightarrow>
         search_re ci (Seq (Grp i digits) R) (ds @ rest) = search_re ci (Seq (Grp i digits) R) rest"
proof (induction ds)
  case Nil
  show ?case by simp
next
  case (Cons d ds)
  then have all: "set (d # ds) \<subseteq> set digit_chars" and ne: "d # ds \<noteq> []"
    and ds: "set ds \<subseteq> set digit_chars" by auto
  have m: "matches ci (Seq (Grp i digits) R) (d # ds @ rest, []) = []"
    using seq_digits [of ci R rest "d # ds" i "[]"] fail rest ne all dead
    by (simp del: matches.simps)
  have "search_re ci (Seq (Grp i digits) R) ((d # ds) @ rest)
        = search_re ci (Seq (Grp i digits) R) (ds @ rest)"
    unfolding append_Cons search_re.simps m by (simp del: matches.simps)
  with Cons.IH [OF ds] show ?case by simp
qed

lemma seq_digits_nondigit:
  "x \<notin> set digit_chars \<Longrightarrow> matches ci (Seq (Grp i digits) R) (x # xs, c) = []"
  by (simp add: digits_def Plus_def)

lemma seq_digits_empty: "matches ci (Seq (Grp i digits) R) ([], c) = []"
  by (simp add: digits_def Plus_def)

lemma search_nondigit_prefix:
  "set pre \<inter> set digit_chars = {} \<Longrightarrow>
   search_re ci (Seq (Grp i digits) R) (pre @ xs) = search_re ci (Seq (Grp i digits) R) xs"
proof (induction pre)
  case Nil
  show ?case by simp
next
  case (Cons p pre)
  then have p: "p \<notin> set digit_chars" and pre: "set pre \<inter> set digit_chars = {}" by auto
  have "search_re ci (Seq (Grp i digits) R) ((p # pre) @ xs)
        = search_re ci (Seq (Grp i digits) R) (pre @ xs)"
    unfolding append_Cons search_re.simps seq_digits_nondigit [OF p] by (simp del: matches.simps)
  with Cons.IH [OF pre] show ?case by simp
qed

lemma search_digits_hit:
  assumes fail: "\<And>x xs c'. x \<in> set digit_chars \<Longrightarrow> matches ci R (x # xs, c') = []"
    and rest: "rest = [] \<or> hd rest \<notin> set digit_chars"
    and ds: "ds \<noteq> []" "set ds \<subseteq> set digit_chars"
    and hit: "matches ci R (rest, [(i, ds)]) = st # sts"
  shows "search_re ci (Seq (Grp i digits) R) (ds @ rest) = Some (snd st)"
proof -
  from ds(1) obtain d ds' where eq: "ds = d # ds'" by (cases ds) auto
  have m: "matches ci (Seq (Grp i digits) R) (d # ds' @ rest, []) = st # sts"
    using seq_digits [of ci R rest ds i "[]"] fail rest ds hit unfolding eq
    by (simp del: matches.simps)
  show ?thesis
    unfolding eq append_Cons search_re.simps m by simp
qed

lemma digit_not_letter:
  "x \<in> set digit_chars \<Longrightarrow> x \<notin> set (lower_chars @ upper_chars @ '' :'')"
  by (auto simp: digit_chars_def lower_chars_def upper_chars_def)

lemma nth_minute_shape:
  "re_nth_minute =
   Seq (Grp 1 digits)
     (Seq (Opt (Alt (Lit ''st'') (Alt (Lit ''nd'') (Alt (Lit ''rd'') (Lit ''th'')))))
          (Lit '' minute''))"
  by (simp add: re_nth_minute_def)

lemma nth_tail_fails_on_digit:
  assumes "x \<in> set digit_chars"
  shows "matches False
     (Seq (Opt (Alt (Lit ''st'') (Alt (Lit ''nd'') (Alt (Lit ''rd'') (Lit ''th'')))))
          (Lit '' minute'')) (x # xs, c) = []"
proof -
  from digit_not_letter [OF assms] have "x \<noteq> CHR ''s''" "x \<noteq> CHR ''n''" "x \<noteq> CHR ''r''"
    "x \<noteq> CHR ''t''" "x \<noteq> CHR '' ''"
    by (auto simp: lower_chars_def)
  then show ?thesis by (simp add: char_eq_def)
qed

lemma nth_tail_hit:
  "matches False
     (Seq (Opt (Alt (Lit ''st'') (Alt (Lit ''nd'') (Alt (Lit ''rd'') (Lit ''th'')))))
          (Lit '' minute'')) ('' minute'' @ post, c) = [(post, c)]"
  by (simp add: char_eq_def)

lemma nth_minute_hit:
  assumes pre: "set pre \<inter> set digit_chars = {}"
    and ds: "ds \<noteq> []" "set ds \<subseteq> set digit_chars"
  shows "search_re False re_nth_minute (pre @ ds @ '' minute'' @ post) = Some [(1, ds)]"
proof -
  have rest: "'' minute'' @ post = [] \<or> hd ('' minute'' @ post) \<notin> set digit_chars"
    by (simp add: digit_chars_def)
  have "search_re False re_nth_minute (pre @ ds @ '' minute'' @ post)
        = search_re False re_nth_minute (ds @ '' minute'' @ post)"
    unfolding nth_minute_shape by (rule search_nondigit_prefix [OF pre])
  also have "\<dots> = Some (snd (post, [(1, ds)]))"
    unfolding nth_minute_shape
    by (rule search_digits_hit [OF nth_tail_fails_on_digit rest ds nth_tail_hit])
  finally show ?thesis by simp
qed


lemma lower_char_keeps_nondigit:
  assumes "x \<notin> set digit_chars"
  shows "lower_char x \<notin> set digit_chars"
proof (cases "map_of (zip upper_chars lower_chars) x")
  case None
  with assms show ?thesis by (simp add: lower_char_def)
next
  case (Some l)
  then have "(x, l) \<in> set (zip upper_chars lower_chars)" by (rule map_of_SomeD)
  then have "l \<in> set lower_chars" by (rule set_zip_rightD)
  then have "l \<notin> set digit_chars" using digit_not_letter [of l] by auto
  with Some show ?thesis by (simp add: lower_char_def)
qed

lemma toLowerCase_nondigit:
  "set pre \<inter> set digit_chars = {} \<Longrightarrow> set (toLowerCase pre) \<inter> set digit_chars = {}"
  using lower_char_keeps_nondigit by (auto simp: toLowerCase_def)

lemma toLowerCase_minute: "toLowerCase '' minute'' = '' minute''"
  by code_simp

lemma nth_minute_rule_shadows:
  assumes pre: "set pre \<inter> set digit_chars = {}"
    and ds: "ds \<noteq> []" "set ds \<subseteq> set digit_chars"
  shows "parseTimeString (pre @ ds @ '' minute'' @ post) D = parseInt ds * 60"
proof -
  have low: "toLowerCase (pre @ ds @ '' minute'' @ post)
             = toLowerCase pre @ ds @ '' minute'' @ toLowerCase post"
    by (simp only: toLowerCase_append toLowerCase_digits [OF ds(2)] toLowerCase_minute)
  have "search_re False re_nth_minute (toLowerCase (pre @ ds @ '' minute'' @ post)) = Some [(1, ds)]"
    unfolding low by (rule nth_minute_hit [OF toLowerCase_nondigit [OF pre] ds])
  then show ?thesis
    by (simp add: parseTimeString_def cap_def)
qed

lemma nth_minute_skip:
  assumes pre: "set pre \<inter> set digit_chars = {}"
    and ds: "set ds \<subseteq> set digit_chars"
    and rest: "rest = [] \<or> hd rest \<notin> set digit_chars"
    and dead: "\<And>c. matches False
       (Seq (Opt (Alt (Lit ''st'') (Alt (Lit ''nd'') (Alt (Lit ''rd'') (Lit ''th'')))))
            (Lit '' minute'')) (rest, c) = []"
  shows "search_re False re_nth_minute (pre @ ds @ rest) = search_re False re_nth_minute rest"
proof -
  have "search_re False re_nth_minute (pre @ ds @ rest) = search_re False re_nth_minute (ds @ rest)"
    unfolding nth_minute_shape by (rule search_nondigit_prefix [OF pre])
  also have "\<dots> = search_re False re_nth_minute rest"
    unfolding nth_minute_shape
    by (rule search_digits_fail [OF nth_tail_fails_on_digit rest dead ds])
  finally show ?thesis .
qed

lemma search_lit_absent:
  "p \<notin> set s \<Longrightarrow> search_re False (Seq (Lit (p # ps)) X) s = None"
  by (induction s) (simp_all add: char_eq_def)

lemma lit_rest_prefix: "lit_rest False p (p @ xs) = Some xs"
  by (simp add: lit_rest_exact)

lemma seq_lit_exact: "matches False (Seq (Lit p) X) (p @ xs, c) = matches False X (xs, c)"
  by (simp add: lit_rest_prefix)

lemma search_hit_at_start:
  "matches ci r (x # xs, []) = st # sts \<Longrightarrow> search_re ci r (x # xs) = Some (snd st)"
  by simp

lemma space_tail_fails_on_digit:
  assumes "x \<in> set digit_chars"
  shows "matches False (Seq (Lit '' '') Y) (x # xs, c) = []"
proof -
  from digit_not_letter [OF assms] have "x \<noteq> CHR '' ''" by auto
  then show ?thesis by (simp add: char_eq_def)
qed

lemma n_unit_match:
  assumes ds: "ds \<noteq> []" "set ds \<subseteq> set digit_chars"
  shows "matches False (seqs [Lit w, Grp 1 digits, Lit '' '', U, Opt (Lit ''s'')])
           (w @ ds @ CHR '' '' # tail, [])
         = matches False (Seq U (Opt (Lit ''s''))) (tail, [(1, ds)])"
proof -
  have rest: "CHR '' '' # tail = [] \<or> hd (CHR '' '' # tail) \<notin> set digit_chars"
    by (simp add: digit_chars_def)
  have "matches False (seqs [Lit w, Grp 1 digits, Lit '' '', U, Opt (Lit ''s'')])
           (w @ ds @ CHR '' '' # tail, [])
        = matches False (Seq (Grp 1 digits) (Seq (Lit '' '') (Seq U (Opt (Lit ''s'')))))
           (ds @ CHR '' '' # tail, [])"
    unfolding seqs.simps by (rule seq_lit_exact)
  also have "\<dots> = matches False (Seq (Lit '' '') (Seq U (Opt (Lit ''s''))))
           (CHR '' '' # tail, [(1, ds)])"
    by (rule seq_digits [OF space_tail_fails_on_digit rest ds])
  also have "\<dots> = matches False (Seq U (Opt (Lit ''s''))) (tail, [(1, ds)])"
    using seq_lit_exact [of "'' ''" "Seq U (Opt (Lit ''s''))" tail "[(1, ds)]"]
    by (simp del: matches.simps)
  finally show ?thesis .
qed

lemma unit_word_hours:
  "matches False (Seq unit_word (Opt (Lit ''s''))) (''hours'', c)
   = [([], (2, ''hour'') # c), (''s'', (2, ''hour'') # c)]"
  by (simp add: unit_word_def char_eq_def)

lemma unit_word_seconds:
  "matches False (Seq unit_word (Opt (Lit ''s''))) (''seconds'', c)
   = [([], (2, ''second'') # c), (''s'', (2, ''second'') # c)]"
  by (simp add: unit_word_def char_eq_def)

lemma last_hours_hit:
  assumes ds: "ds \<noteq> []" "set ds \<subseteq> set digit_chars"
  shows "search_re False re_last (''last '' @ ds @ '' hours'') = Some [(2, ''hour''), (1, ds)]"
proof -
  have "matches False re_last (''last '' @ ds @ CHR '' '' # ''hours'', [])
        = [([], [(2, ''hour''), (1, ds)]), (''s'', [(2, ''hour''), (1, ds)])]"
    unfolding re_last_def n_unit_match [OF ds] unit_word_hours ..
  then show ?thesis by (simp del: matches.simps)
qed

lemma last_seconds_hit:
  assumes ds: "ds \<noteq> []" "set ds \<subseteq> set digit_chars"
  shows "search_re False re_last (''last '' @ ds @ '' seconds'') = Some [(2, ''second''), (1, ds)]"
proof -
  have "matches False re_last (''last '' @ ds @ CHR '' '' # ''seconds'', [])
        = [([], [(2, ''second''), (1, ds)]), (''s'', [(2, ''second''), (1, ds)])]"
    unfolding re_last_def n_unit_match [OF ds] unit_word_seconds ..
  then show ?thesis by (simp del: matches.simps)
qed


lemma toLowerCase_consts:
  "toLowerCase ''last '' = ''last ''" "toLowerCase ''first '' = ''first ''"
  "toLowerCase '' hours'' = '' hours''" "toLowerCase '' seconds'' = '' seconds''"
  by code_simp+

lemma nth_dead_hours:
  "matches False
     (Seq (Opt (Alt (Lit ''st'') (Alt (Lit ''nd'') (Alt (Lit ''rd'') (Lit ''th'')))))
          (Lit '' minute'')) ('' hours'', c) = []"
  by (simp add: char_eq_def)

lemma nth_dead_seconds:
  "matches False
     (Seq (Opt (Alt (Lit ''st'') (Alt (Lit ''nd'') (Alt (Lit ''rd'') (Lit ''th'')))))
          (Lit '' minute'')) ('' seconds'', c) = []"
  by (simp add: char_eq_def)

lemma nth_none_consts:
  "search_re False re_nth_minute '' hours'' = None"
  "search_re False re_nth_minute '' seconds'' = None"
  by code_simp+

lemma no_digit_consts:
  "set ''last '' \<inter> set digit_chars = {}" "set ''first '' \<inter> set digit_chars = {}"
  by (simp_all add: digit_chars_def)

lemma nth_none_unit:
  assumes ds: "set ds \<subseteq> set digit_chars"
  shows "search_re False re_nth_minute (''last '' @ ds @ '' hours'') = None"
    and "search_re False re_nth_minute (''last '' @ ds @ '' seconds'') = None"
    and "search_re False re_nth_minute (''first '' @ ds @ '' hours'') = None"
    and "search_re False re_nth_minute (''first '' @ ds @ '' seconds'') = None"
proof -
  have h: "'' hours'' = [] \<or> hd '' hours'' \<notin> set digit_chars"
    and s: "'' seconds'' = [] \<or> hd '' seconds'' \<notin> set digit_chars"
    by (simp_all add: digit_chars_def)
  show "search_re False re_nth_minute (''last '' @ ds @ '' hours'') = None"
    using nth_minute_skip [OF no_digit_consts(1) ds h nth_dead_hours] nth_none_consts(1) by simp
  show "search_re False re_nth_minute (''last '' @ ds @ '' seconds'') = None"
    using nth_minute_skip [OF no_digit_consts(1) ds s nth_dead_seconds] nth_none_consts(2) by simp
  show "search_re False re_nth_minute (''first '' @ ds @ '' hours'') = None"
    using nth_minute_skip [OF no_digit_consts(2) ds h nth_dead_hours] nth_none_consts(1) by simp
  show "search_re False re_nth_minute (''first '' @ ds @ '' seconds'') = None"
    using nth_minute_skip [OF no_digit_consts(2) ds s nth_dead_seconds] nth_none_consts(2) by simp
qed

lemma first_none_after_last:
  assumes ds: "set ds \<subseteq> set digit_chars"
  shows "search_re False re_first (''last '' @ ds @ tail) = search_re False re_first tail"
proof -
  have shape: "re_first = Seq (Lit (CHR ''f'' # ''irst ''))
      (seqs [Grp 1 digits, Lit '' '', unit_word, Opt (Lit ''s'')])"
    by (simp add: re_first_def)
  have f: "\<And>x xs c. x \<in> set digit_chars \<Longrightarrow>
      matches False (Seq (Lit (CHR ''f'' # ''irst ''))
        (seqs [Grp 1 digits, Lit '' '', unit_word, Opt (Lit ''s'')])) (x # xs, c) = []"
  proof -
    fix x xs c assume "x \<in> set digit_chars"
    from digit_not_letter [OF this] have "x \<noteq> CHR ''f''" by (auto simp: lower_chars_def)
    then show "matches False (Seq (Lit (CHR ''f'' # ''irst ''))
        (seqs [Grp 1 digits, Lit '' '', unit_word, Opt (Lit ''s'')])) (x # xs, c) = []"
      by (simp add: char_eq_def del: seqs.simps)
  qed
  have "search_re False re_first (''last '' @ ds @ tail) = search_re False re_first (ds @ tail)"
    unfolding shape by (simp add: char_eq_def del: seqs.simps)
  also have "\<dots> = search_re False re_first tail"
    unfolding shape by (rule search_skip [OF f ds])
  finally show ?thesis .
qed

lemma first_none_consts:
  "search_re False re_first '' hours'' = None" "search_re False re_first '' seconds'' = None"
  by code_simp+

lemma last_hours_parse:
  assumes ds: "ds \<noteq> []" "set ds \<subseteq> set digit_chars"
  shows "parseTimeString (''last '' @ ds @ '' hours'') D = D - parseInt ds * 3600"
proof -
  have low: "toLowerCase (''last '' @ ds @ '' hours'') = ''last '' @ ds @ '' hours''"
    by (simp only: toLowerCase_append toLowerCase_digits [OF ds(2)] toLowerCase_consts)
  show ?thesis
    unfolding parseTimeString_def Let_def low nth_none_unit(1) [OF ds(2)] parse_first_def
      first_none_after_last [OF ds(2)] first_none_consts parse_last_def last_hours_hit [OF ds]
    by (simp add: cap_def startsWith_def)
qed

lemma last_seconds_parse:
  assumes ds: "ds \<noteq> []" "set ds \<subseteq> set digit_chars"
  shows "parseTimeString (''last '' @ ds @ '' seconds'') D = D - parseInt ds"
proof -
  have low: "toLowerCase (''last '' @ ds @ '' seconds'') = ''last '' @ ds @ '' seconds''"
    by (simp only: toLowerCase_append toLowerCase_digits [OF ds(2)] toLowerCase_consts)
  show ?thesis
    unfolding parseTimeString_def Let_def low nth_none_unit(2) [OF ds(2)] parse_first_def
      first_none_after_last [OF ds(2)] first_none_consts parse_last_def last_seconds_hit [OF ds]
    by (simp add: cap_def startsWith_def)
qed


lemma first_hours_hit:
  assumes ds: "ds \<noteq> []" "set ds \<subseteq> set digit_chars"
  shows "search_re False re_first (''first '' @ ds @ '' hours'') = Some [(2, ''hour''), (1, ds)]"
proof -
  have "matches False re_first (''first '' @ ds @ CHR '' '' # ''hours'', [])
        = [([], [(2, ''hour''), (1, ds)]), (''s'', [(2, ''hour''), (1, ds)])]"
    unfolding re_first_def n_unit_match [OF ds] unit_word_hours ..
  then show ?thesis by (simp del: matches.simps)
qed

lemma first_seconds_hit:
  assumes ds: "ds \<noteq> []" "set ds \<subseteq> set digit_chars"
  shows "search_re False re_first (''first '' @ ds @ '' seconds'') = Some [(2, ''second''), (1, ds)]"
proof -
  have "matches False re_first (''first '' @ ds @ CHR '' '' # ''seconds'', [])
        = [([], [(2, ''second''), (1, ds)]), (''s'', [(2, ''second''), (1, ds)])]"
    unfolding re_first_def n_unit_match [OF ds] unit_word_seconds ..
  then show ?thesis by (simp del: matches.simps)
qed

lemma first_hours_parse:
  assumes ds: "ds \<noteq> []" "set ds \<subseteq> set digit_chars"
  shows "parseTimeString (''first '' @ ds @ '' hours'') D = 0"
proof -
  have low: "toLowerCase (''first '' @ ds @ '' hours'') = ''first '' @ ds @ '' hours''"
    by (simp only: toLowerCase_append toLowerCase_digits [OF ds(2)] toLowerCase_consts)
  show ?thesis
    unfolding parseTimeString_def Let_def low nth_none_unit(3) [OF ds(2)] parse_first_def
      first_hours_hit [OF ds]
    by (simp add: cap_def startsWith_def)
qed

lemma first_seconds_parse:
  assumes ds: "ds \<noteq> []" "set ds \<subseteq> set digit_chars"
  shows "parseTimeString (''first '' @ ds @ '' seconds'') D = 0"
proof -
  have low: "toLowerCase (''first '' @ ds @ '' seconds'') = ''first '' @ ds @ '' seconds''"
    by (simp only: toLowerCase_append toLowerCase_digits [OF ds(2)] toLowerCase_consts)
  show ?thesis
    unfolding parseTimeString_def Let_def low nth_none_unit(4) [OF ds(2)] parse_first_def
      first_seconds_hit [OF ds]
    by (simp add: cap_def startsWith_def)
qed

section \<open>Signs of the parsed values\<close>

lemma digit_val_nonneg: "0 \<le> digit_val c"
  by (simp add: digit_val_def)

lemma foldl_digits_nonneg: "0 \<le> a \<Longrightarrow> 0 \<le> foldl (\<lambda>a c. 10 * a + digit_val c) a xs"
  by (induction xs arbitrary: a) (simp_all add: digit_val_nonneg)

lemma parseInt_nonneg: "0 \<le> parseInt s"
  by (simp add: parseInt_def foldl_digits_nonneg)

lemma re_last_caps:
  assumes "search_re False re_last s = Some c"
  shows "cap c 2 \<in> {''minute'', ''hour'', ''second''}"
proof -
  from search_re_sound [OF assms] obtain t st where
    "st \<in> set (matches False re_last (t, []))" "c = snd st" by blast
  then obtain ds u where "c = [(2, u), (1, ds)]" "u \<in> {''minute'', ''hour'', ''second''}"
    using n_unit_sound [of st "''last ''" "''minute''" "''hour''" "''second''" t]
    unfolding re_last_def unit_word_def by auto
  then show ?thesis by (auto simp: cap_def)
qed

lemma parse_hms_nonneg: "0 \<le> D \<Longrightarrow> 0 \<le> parse_hms s D"
  by (auto simp: parse_hms_def Let_def parseInt_nonneg split: option.splits)

lemma parse_after_nonneg: "0 \<le> D \<Longrightarrow> 0 \<le> parse_after s D"
  by (auto simp: parse_after_def parse_before_def Let_def parseInt_nonneg parse_hms_nonneg
      split: option.splits)

lemma nonneg_without_last_rule:
  assumes "0 \<le> D" and "search_re False re_last (toLowerCase s) = None"
  shows "0 \<le> parseTimeString s D"
  using assms
  by (auto simp: parseTimeString_def parse_first_def parse_last_def Let_def parseInt_nonneg
      parse_after_nonneg split: option.splits)

text \<open>
  On any phrase on which the rules for "Nth minute" and "first" do not match and the
  rule for "last" does, the parser returns the duration less \<open>N\<close> units, unclamped.
\<close>

lemma last_rule_general:
  assumes "search_re False re_nth_minute (toLowerCase s) = None"
    and "search_re False re_first (toLowerCase s) = None"
    and "search_re False re_last (toLowerCase s) = Some c"
  shows "parseTimeString s D =
         D - parseInt (cap c 1) *
             (if cap c 2 = ''hour'' then 3600 else if cap c 2 = ''minute'' then 60 else 1)"
  using assms re_last_caps [OF assms(3)]
  by (auto simp: parseTimeString_def parse_first_def parse_last_def startsWith_def)

section \<open>The fallback index in double precision\<close>

text \<open>
  The rounding shows: at 348 seconds and 50 chunks the exact quotient is 29 and the
  source's index is 28. From ten minutes on, the index is at least the number of chunks.
\<close>

lemma fallback_index_rounds: "fallback_index 348 50 = 28" "(348 * 50) div 600 = (29 :: int)"
  by code_simp+

lemma bit_length_nonneg: "0 \<le> bit_length n"
proof (induction n rule: bit_length.induct)
  case (1 n)
  then show ?case by (subst bit_length.simps) auto
qed

lemma bit_length_bounds:
  "0 < n \<Longrightarrow> pow2 (bit_length n - 1) \<le> n \<and> n < pow2 (bit_length n)"
proof (induction n rule: bit_length.induct)
  case (1 n)
  show ?case
  proof (cases "n = 1")
    case True
    have "bit_length 1 = 1" by code_simp
    with True show ?thesis by (simp add: pow2_def)
  next
    case False
    with "1.prems" have h: "0 < n div 2" "\<not> n \<le> 0" by auto
    from "1.IH" [OF h(2) h(1)] have ih: "pow2 (bit_length (n div 2) - 1) \<le> n div 2"
      "n div 2 < pow2 (bit_length (n div 2))" by auto
    have bl: "bit_length n = 1 + bit_length (n div 2)"
      using h(2) by (subst bit_length.simps) simp
    have pos: "1 \<le> bit_length (n div 2)"
      using h(1) bit_length_nonneg [of "n div 2 div 2"] by (subst bit_length.simps) simp
    have p1: "pow2 (bit_length n - 1) = 2 * pow2 (bit_length (n div 2) - 1)"
    proof -
      have "nat (bit_length (n div 2)) = Suc (nat (bit_length (n div 2) - 1))" using pos by simp
      then show ?thesis unfolding bl pow2_def by simp
    qed
    have p2: "pow2 (bit_length n) = 2 * pow2 (bit_length (n div 2))"
    proof -
      have "nat (1 + bit_length (n div 2)) = Suc (nat (bit_length (n div 2)))"
        using pos by simp
      then show ?thesis unfolding bl pow2_def by simp
    qed
    from ih show ?thesis unfolding p1 p2 by presburger
  qed
qed

lemma pow2_pos: "0 < pow2 k"
  by (simp add: pow2_def)

lemma pow2_mono: "a \<le> b \<Longrightarrow> pow2 a \<le> pow2 b"
  by (simp add: pow2_def power_increasing)

lemma pow2_add: "0 \<le> a \<Longrightarrow> 0 \<le> b \<Longrightarrow> pow2 (a + b) = pow2 a * pow2 b"
  by (simp add: pow2_def nat_add_distrib power_add)

lemma bit_length_le:
  assumes "0 \<le> k" and "n < pow2 k"
  shows "bit_length n \<le> k"
proof (cases "0 < n")
  case False
  then show ?thesis using assms(1) by (subst bit_length.simps) simp
next
  case True
  from bit_length_bounds [OF True] assms(2) have "pow2 (bit_length n - 1) < pow2 k" by simp
  then have "\<not> k \<le> bit_length n - 1" using pow2_mono [of k "bit_length n - 1"] by auto
  then show ?thesis by simp
qed

lemma div_lower: "0 < b \<Longrightarrow> c * b \<le> a \<Longrightarrow> c \<le> a div (b :: int)"
proof -
  assume b: "0 < b" and le: "c * b \<le> a"
  from le have "(c * b) div b \<le> a div b" using b by (intro zdiv_mono1) simp_all
  with b show ?thesis by simp
qed

lemma round_div_lower: "0 < b \<Longrightarrow> c * b \<le> a \<Longrightarrow> c \<le> round_div a b"
  using div_lower [of b c a] by (auto simp: round_div_def Let_def)

lemma fl_quot_at_least_one:
  assumes "600 \<le> s" and "s < 2 ^ 53"
  shows "\<exists>m k. fl_quot s 600 = (m, - k) \<and> 0 \<le> k \<and> pow2 k \<le> m"
proof -
  have b600: "bit_length 600 = 10" by code_simp
  have "s < pow2 53" using assms(2) by (simp add: pow2_def)
  then have bl: "bit_length s \<le> 53" by (intro bit_length_le) simp_all
  define e0 where "e0 = bit_length s - bit_length 600"
  define E where "E = (if (if 0 \<le> e0 then 600 * pow2 e0 \<le> s else 600 \<le> s * pow2 (- e0))
               then e0 else e0 - 1)"
  define k where "k = 52 - E"
  have "E \<le> e0" by (simp add: E_def)
  with bl b600 have k: "0 \<le> k" by (simp add: k_def e0_def)
  have f: "fl_quot s 600 =
        (if 0 \<le> k then (round_div (s * pow2 k) 600, - k)
         else (round_div s (600 * pow2 (- k)), - k))"
    by (simp only: fl_quot_def Let_def k_def E_def e0_def)
  have q: "fl_quot s 600 = (round_div (s * pow2 k) 600, - k)"
    unfolding f using k by (rule if_P)
  have "pow2 k * 600 \<le> s * pow2 k"
    using assms(1) pow2_pos [of k] by (simp add: mult.commute mult_left_mono)
  then have "pow2 k \<le> round_div (s * pow2 k) 600" by (intro round_div_lower) simp_all
  with q k show ?thesis by blast
qed

lemma fl_mul_floor_lower:
  assumes k: "0 \<le> k" and m: "pow2 k \<le> m" and n: "1 \<le> n" "n < 2 ^ 53"
  shows "n \<le> floor_double (fl_mul (m, - k) n)"
proof -
  define M where "M = m * n"
  define L where "L = bit_length M"
  have Mn: "n * pow2 k \<le> M"
    using m n(1) by (simp add: M_def mult.commute mult_right_mono)
  have Mpos: "0 < M" using Mn n(1) pow2_pos [of k]
    by (smt (verit) mult_pos_pos)
  show ?thesis
  proof (cases "L \<le> 53")
    case True
    then have r: "fl_mul (m, - k) n = (M, - k)"
      by (simp add: fl_mul_def Let_def M_def L_def)
    show ?thesis
    proof (cases "k = 0")
      case True
      have "floor_double (M, - k) = M" unfolding True by (simp add: floor_double_def pow2_def)
      moreover from Mn have "n \<le> M" unfolding True by (simp add: pow2_def)
      ultimately show ?thesis unfolding r by simp
    next
      case False
      with k have "\<not> 0 \<le> - k" by simp
      then have "floor_double (M, - k) = M div pow2 k" by (simp add: floor_double_def)
      with div_lower [OF pow2_pos Mn] show ?thesis unfolding r by simp
    qed
  next
    case False
    define d where "d = L - 53"
    from False have d: "0 < d" by (simp add: d_def)
    have r: "fl_mul (m, - k) n = (round_div M (pow2 d), d - k)"
      using False by (simp add: fl_mul_def Let_def M_def L_def d_def)
    have "pow2 (L - 1) \<le> M" using bit_length_bounds [OF Mpos] by (simp add: L_def)
    moreover have "pow2 (L - 1) = pow2 52 * pow2 d"
      using d pow2_add [of 52 d] by (simp add: d_def)
    ultimately have big: "pow2 52 \<le> round_div M (pow2 d)"
      by (intro round_div_lower pow2_pos) simp
    consider (lt) "d < k" | (eq) "d = k" | (gt) "k < d" by linarith
    then show ?thesis
    proof cases
      case lt
      then have "pow2 k = pow2 (k - d) * pow2 d" using d pow2_add [of "k - d" d] by simp
      with Mn have "(n * pow2 (k - d)) * pow2 d \<le> M" by (simp add: mult.assoc)
      then have "n * pow2 (k - d) \<le> round_div M (pow2 d)"
        by (intro round_div_lower pow2_pos)
      then have "n \<le> round_div M (pow2 d) div pow2 (k - d)"
        by (intro div_lower pow2_pos)
      moreover have "floor_double (round_div M (pow2 d), d - k)
                     = round_div M (pow2 d) div pow2 (k - d)"
        using lt by (simp add: floor_double_def)
      ultimately show ?thesis unfolding r by simp
    next
      case eq
      from Mn eq have "n \<le> round_div M (pow2 d)" by (intro round_div_lower pow2_pos) simp
      moreover have "floor_double (round_div M (pow2 d), d - k) = round_div M (pow2 d)"
        using eq by (simp add: floor_double_def pow2_def)
      ultimately show ?thesis unfolding r by simp
    next
      case gt
      then have "1 \<le> d - k" by simp
      then have "pow2 1 \<le> pow2 (d - k)" by (rule pow2_mono)
      then have "2 \<le> pow2 (d - k)" by (simp add: pow2_def)
      moreover have "pow2 52 = 2 ^ 52" by (simp add: pow2_def)
      ultimately have "2 ^ 53 \<le> round_div M (pow2 d) * pow2 (d - k)"
        using big mult_mono [of "2 ^ 52" "round_div M (pow2 d)" 2 "pow2 (d - k)"] by simp
      moreover have "floor_double (round_div M (pow2 d), d - k)
                     = round_div M (pow2 d) * pow2 (d - k)"
        using gt by (simp add: floor_double_def)
      ultimately show ?thesis unfolding r using n(2) by simp
    qed
  qed
qed

lemma fallback_index_past_ten_minutes:
  assumes "600 \<le> seconds" and "seconds < 2 ^ 53" and "1 \<le> n" and "n < 2 ^ 53"
  shows "n \<le> fallback_index seconds n"
proof -
  from fl_quot_at_least_one [OF assms(1,2)] obtain m k where
    q: "fl_quot seconds 600 = (m, - k)" and k: "0 \<le> k" and m: "pow2 k \<le> m" by blast
  from assms(1) have "fallback_index seconds n = floor_double (fl_mul (m, - k) n)"
    by (simp add: fallback_index_def Let_def q)
  with fl_mul_floor_lower [OF k m assms(3,4)] show ?thesis by simp
qed

section \<open>Router and selectors\<close>

lemma range_match_throws:
  "extractTimeRange input D = Some r \<Longrightarrow>
   route e input videoId docs md D = Inl (ReferenceError ''getTranscriptSegmentsByTimeRange'')"
  by (simp add: route_def getTranscriptSegmentsByTimeRange_def)

lemma about_is_time_range:
  assumes "search_re True re_about text = Some c"
  shows "extractTimeRange text D \<noteq> None"
  using assms
  by (auto simp: extractTimeRange_def range_first_def range_last_def range_after_def
      range_before_def range_around_def Let_def split: option.splits)

lemma selectors_on_no_chunks:
  "getTranscriptSegmentByMinute [] minute = []"
  "getTranscriptSegmentBySeconds [] seconds = []"
  "getTranscriptSegmentLastMinute [] = []"
  by (simp_all add: getTranscriptSegmentByMinute_def getTranscriptSegmentBySeconds_def
      getTranscriptSegmentLastMinute_def)

lemma seconds_past_ten_minutes:
  assumes "docs \<noteq> []" and "find (covers seconds) docs = None"
    and "600 \<le> seconds" and "seconds < 2 ^ 53" and "int (length docs) < 2 ^ 53"
  shows "getTranscriptSegmentBySeconds docs seconds = [None]"
proof -
  from assms(1) have "1 \<le> int (length docs)" by (cases docs) simp_all
  from fallback_index_past_ten_minutes [OF assms(3,4) this assms(5)] assms(1,2)
  show ?thesis by (simp add: getTranscriptSegmentBySeconds_def js_index_def)
qed

text \<open>
  The retrieval of the video's chunks is guarded: when it throws, the error is logged, the
  scrape is triggered and one of its two messages is the result.
\<close>

lemma first_retrieval_failure_triggers_scrape:
  assumes "extractYoutubeUrl input = Some url"
    and "getVideoIdFromUrl url = Some videoId"
    and "similaritySearch e [] 40 videoId = Inl err"
  shows "agent e input = no_transcript e url [RetrievalErrorLogged err] \<and>
         take 1 (logged (agent e input)) = [RetrievalErrorLogged err] \<and>
         scrape_calls (agent e input) = [url] \<and>
         (result (agent e input) = Inr ScrapeStarted \<or> result (agent e input) = Inr ScrapeFailed)"
  using assms by (auto simp: agent_def no_transcript_def split: option.splits)

lemma first_retrieval_failure_example:
  "extractYoutubeUrl ''summarize https://youtu.be/abc please'' = Some ''https://youtu.be/abc'' \<and>
   getVideoIdFromUrl ''https://youtu.be/abc'' = Some ''abc'' \<and>
   similaritySearch broken_store [] 40 ''abc'' = Inl (Thrown ''connection refused'') \<and>
   logged (agent broken_store ''summarize https://youtu.be/abc please'')
     = [RetrievalErrorLogged (Thrown ''connection refused'')] \<and>
   scrape_calls (agent broken_store ''summarize https://youtu.be/abc please'')
     = [''https://youtu.be/abc''] \<and>
   result (agent broken_store ''summarize https://youtu.be/abc please'') = Inr ScrapeStarted"
proof -
  have u: "extractYoutubeUrl ''summarize https://youtu.be/abc please'' = Some ''https://youtu.be/abc''"
    by code_simp
  have v: "getVideoIdFromUrl ''https://youtu.be/abc'' = Some ''abc''" by code_simp
  have s: "similaritySearch broken_store [] 40 ''abc'' = Inl (Thrown ''connection refused'')"
    by (simp add: broken_store_def)
  have t: "triggerYoutubeVideoScrape broken_store ''https://youtu.be/abc'' = None"
    by (simp add: broken_store_def)
  from first_retrieval_failure_triggers_scrape [OF u v s]
  have "agent broken_store ''summarize https://youtu.be/abc please''
        = no_transcript broken_store ''https://youtu.be/abc''
            [RetrievalErrorLogged (Thrown ''connection refused'')]" by blast
  with t u v s show ?thesis by (simp add: no_transcript_def)
qed

text \<open>The retrieval for a topic is not guarded: its error is the router's result.\<close>

lemma topic_retrieval_throw:
  assumes "extractTimeRange input D = None"
    and "extractMinuteOrTimestamp input = None"
    and "extractTopic input = Some topic" and "topic \<noteq> []"
    and "similaritySearch e topic 4 videoId = Inl err"
  shows "route e input videoId docs md D = Inl err"
  using assms by (simp add: route_def route_timestamp_def route_topic_def)

text \<open>
  Through \<^verbatim>\<open>agent\<close>, the router is reached only when the utterance carries a video URL;
  without one the utterance goes to the pass-through completion.
\<close>

lemma sentiment_through_agent:
  "result (agent (store_of [sample_chunk])
             ''what's the sentiment of this video? https://youtu.be/abc'')
     = Inr (Sentiment [sample_chunk])"
  "result (agent (store_of [sample_chunk]) ''what's the sentiment of this video?'')
     = Inr (Passthrough ''what's the sentiment of this video?'')"
  by code_simp+

section \<open>The claims\<close>

text \<open>
  Claim C1: the range selector returns the chunks that overlap the range, returns the
  empty list on no chunks, and the router's range branch evaluates without an error
  whenever the range extractor matches and chunks are present.

  The router calls \<^verbatim>\<open>getTranscriptSegmentsByTimeRange\<close>, a name that agent.js neither
  defines nor imports. On the utterance below (a video URL and the phrase "first 5
  minutes"), with one chunk stored for the video, the range extractor returns the range
  0 to 300 and the agent ends in the \<^verbatim>\<open>ReferenceError\<close> of that call.
\<close>

theorem range_branch_throws:
  "extractTimeRange ''https://youtu.be/abc what happens in the first 5 minutes'' 10800
     = Some (0, 300) \<and>
   result (agent (store_of [sample_chunk])
             ''https://youtu.be/abc what happens in the first 5 minutes'')
     = Inl (ReferenceError ''getTranscriptSegmentsByTimeRange'')"
  by code_simp

text \<open>
  Claim C2, as amended: when the range extractor and the timestamp extractor both return
  nothing on an utterance, the topic extractor finds a non-empty topic in it (by
  "about X", "topic X" or a quoted phrase) and the retrieval for that topic returns
  chunks, the router chooses the Topic intent and analyzes the retrieved chunks.
\<close>

theorem topic_after_time_checks:
  assumes "extractTimeRange input D = None"
    and "extractMinuteOrTimestamp input = None"
    and "extractTopic input = Some topic" and "topic \<noteq> []"
    and "similaritySearch e topic 4 videoId = Inr topicDocs" and "topicDocs \<noteq> []"
  shows "route e input videoId docs md D = Inr (Topic topicDocs)"
  using assms by (simp add: route_def route_timestamp_def route_topic_def)

text \<open>
  An utterance that meets the hypotheses with an "about" phrase: after "about" and its
  space comes a second space, which the topic pattern \<^verbatim>\<open>[\w\s]+\<close> accepts and the range
  pattern \<^verbatim>\<open>[^\s]+\<close> does not.
\<close>

theorem topic_after_time_checks_witness:
  "extractTimeRange ''tell me about  cats'' 10800 = None \<and>
   extractMinuteOrTimestamp ''tell me about  cats'' = None \<and>
   extractTopic ''tell me about  cats'' = Some ''cats'' \<and>
   similaritySearch (store_of [sample_chunk]) ''cats'' 4 ''abc'' = Inr [sample_chunk] \<and>
   route (store_of [sample_chunk]) ''tell me about  cats'' ''abc'' [sample_chunk]
     (doc_metadata sample_chunk) 10800 = Inr (Topic [sample_chunk])"
proof -
  have r: "extractTimeRange ''tell me about  cats'' 10800 = None" by code_simp
  have m: "extractMinuteOrTimestamp ''tell me about  cats'' = None" by code_simp
  have t: "extractTopic ''tell me about  cats'' = Some ''cats''" by code_simp
  have n: "''cats'' \<noteq> []" by simp
  have s: "similaritySearch (store_of [sample_chunk]) ''cats'' 4 ''abc'' = Inr [sample_chunk]"
    by (simp add: store_of_def)
  have d: "[sample_chunk] \<noteq> []" by simp
  from topic_after_time_checks [OF r m t n s d] r m t s show ?thesis by blast
qed

text \<open>
  Claim C2 as stated fails on "tell me about cats". The utterance matches none of the
  families that come before "around"/"about" in the range extractor and no timestamp
  pattern, the topic extractor finds "cats" and the retrieval returns a chunk; but the
  "about X" family of the range extractor matches too (the window 0 to 60), the range
  branch runs first, and the router does not answer with the Topic intent.
\<close>

theorem about_phrase_counterexample:
  "rangeMatch ''tell me about cats'' = None \<and>
   search_re False re_first ''tell me about cats'' = None \<and>
   search_re False re_last ''tell me about cats'' = None \<and>
   search_re False re_after ''tell me about cats'' = None \<and>
   search_re False re_before ''tell me about cats'' = None \<and>
   search_re True re_around ''tell me about cats'' = None \<and>
   extractMinuteOrTimestamp ''tell me about cats'' = None \<and>
   extractTopic ''tell me about cats'' = Some ''cats'' \<and>
   similaritySearch (store_of [sample_chunk]) ''cats'' 4 ''abc'' = Inr [sample_chunk] \<and>
   extractTimeRange ''tell me about cats'' 10800 = Some (0, 60) \<and>
   route (store_of [sample_chunk]) ''tell me about cats'' ''abc'' [sample_chunk]
     (doc_metadata sample_chunk) 10800 \<noteq> Inr (Topic [sample_chunk])"
  by code_simp

text \<open>
  Claim C3, as amended: for every duration \<open>D\<close> and every number \<open>N\<close>, the parser reads
  "last N hours" as \<open>D - N * 3600\<close> and "last N seconds" as \<open>D - N\<close>, with no clamping;
  and on every phrase on which the "last N unit" pattern does not match, the parser
  returns a non-negative number of seconds for a non-negative duration.
\<close>

theorem last_rule_unclamped:
  "(ds \<noteq> [] \<and> set ds \<subseteq> set digit_chars \<longrightarrow>
      parseTimeString (''last '' @ ds @ '' hours'') D = D - parseInt ds * 3600 \<and>
      parseTimeString (''last '' @ ds @ '' seconds'') D = D - parseInt ds) \<and>
   (0 \<le> D \<and> search_re False re_last (toLowerCase s) = None \<longrightarrow> 0 \<le> parseTimeString s D)"
  using last_hours_parse last_seconds_parse nonneg_without_last_rule by blast

text \<open>
  The amended claim at 5 hours of a one-hour video, at 90 seconds of a one-minute video,
  and at a phrase without "last".
\<close>

theorem last_rule_unclamped_witness:
  "parseTimeString ''last 5 hours'' 3600 = - 14400 \<and>
   parseTimeString ''last 90 seconds'' 60 = - 30 \<and>
   search_re False re_last (toLowerCase ''2 hours 30 min'') = None \<and>
   0 \<le> parseTimeString ''2 hours 30 min'' 10800"
proof -
  have d5: "''5'' \<noteq> [] \<and> set ''5'' \<subseteq> set digit_chars" by (simp add: digit_chars_def)
  have d90: "''90'' \<noteq> [] \<and> set ''90'' \<subseteq> set digit_chars" by (simp add: digit_chars_def)
  have p: "parseInt ''5'' = 5" "parseInt ''90'' = 90" by code_simp+
  have n: "search_re False re_last (toLowerCase ''2 hours 30 min'') = None" by code_simp
  from last_rule_unclamped [of "''5''" 3600] d5
  have a: "parseTimeString (''last '' @ ''5'' @ '' hours'') 3600 = 3600 - parseInt ''5'' * 3600"
    by blast
  from last_rule_unclamped [of "''90''" 60] d90
  have b: "parseTimeString (''last '' @ ''90'' @ '' seconds'') 60 = 60 - parseInt ''90''"
    by blast
  from last_rule_unclamped [of _ 10800 "''2 hours 30 min''"] n
  have c: "0 \<le> parseTimeString ''2 hours 30 min'' 10800" by simp
  from a b c n p show ?thesis by simp
qed

text \<open>
  Claim C3 as stated fails twice: "last 5 minutes" of a video of 1000 seconds is not read
  as 1000 - 300 (the "Nth minute" rule reads "5 minute" first), and "last 5 hours" of a
  one-hour video is read as a negative number.
\<close>

theorem last_minutes_counterexample:
  "parseTimeString ''last 5 minutes'' 1000 \<noteq> max 0 (1000 - 5 * 60) \<and>
   parseTimeString ''last 5 hours'' 3600 < 0"
  by code_simp

text \<open>
  Claim C4: every selector returns the empty sequence, never an error or a sequence with
  a value that is not a chunk, when there are no chunks or the index falls outside them;
  in particular \<^verbatim>\<open>getTranscriptSegmentBySeconds\<close> at or past the assumed ten minutes.

  With one chunk without timing metadata and 600 seconds, the fallback index is 1 and the
  selector returns the one-element sequence holding \<^verbatim>\<open>docs[1]\<close>, which is
  \<^verbatim>\<open>undefined\<close>. The router reaches this with "at 10:00"; the segment is not empty, and
  the analysis throws a \<^verbatim>\<open>TypeError\<close> on it.
\<close>

theorem seconds_selector_yields_undefined:
  "getTranscriptSegmentBySeconds [sample_chunk] 600 = [None] \<and>
   extractMinuteOrTimestamp ''https://youtu.be/abc what happens at 10:00'' = Some (Seconds 600) \<and>
   result (agent (store_of [sample_chunk]) ''https://youtu.be/abc what happens at 10:00'')
     = Inl (TypeError ''pageContent'')"
  by code_simp

text \<open>
  Claim C5, as amended: for every utterance on which none of the explicit range patterns
  ("from A to B", "between A and B", "minutes M to N") matches and on which the leftmost
  match of the pattern "first N (minute|hour|second)s?" has the unit minute, and for
  every duration, the extracted range starts at 0 and ends at \<open>N * 60\<close>, \<open>N\<close> being the
  number of that match.
\<close>

theorem first_minutes_range:
  assumes "rangeMatch text = None"
    and "search_re False re_first text = Some c"
    and "cap c 2 = ''minute''"
  shows "extractTimeRange text D = Some (0, parseInt (cap c 1) * 60)"
  using assms by (simp add: extractTimeRange_def range_first_def startsWith_def)

text \<open>The amended claim at "summarize the first 5 minutes".\<close>

theorem first_minutes_range_witness:
  "rangeMatch ''summarize the first 5 minutes'' = None \<and>
   search_re False re_first ''summarize the first 5 minutes''
     = Some [(2, ''minute''), (1, ''5'')] \<and>
   extractTimeRange ''summarize the first 5 minutes'' 10800 = Some (0, 300)"
proof -
  have r: "rangeMatch ''summarize the first 5 minutes'' = None" by code_simp
  have f: "search_re False re_first ''summarize the first 5 minutes''
             = Some [(2, ''minute''), (1, ''5'')]"
    by code_simp
  have u: "cap [(2, ''minute''), (1, ''5'')] 2 = ''minute''" by code_simp
  have n: "parseInt (cap [(2, ''minute''), (1, ''5'')] 1) = 5" by code_simp
  from first_minutes_range [OF r f u, of 10800] n r f show ?thesis by simp
qed

text \<open>
  Claim C5 as stated fails on "from the first 5 minutes to the end": the utterance matches
  "first 5 minutes", but the explicit range "from A to B" is tried first and gives the
  range from 300 to 0.
\<close>

theorem first_minutes_counterexample:
  "search_re False re_first ''from the first 5 minutes to the end''
     = Some [(2, ''minute''), (1, ''5'')] \<and>
   extractTimeRange ''from the first 5 minutes to the end'' 10800 = Some (300, 0) \<and>
   extractTimeRange ''from the first 5 minutes to the end'' 10800 \<noteq> Some (0, 5 * 60)"
  by code_simp

text \<open>
  Claim C6: the parser returns 0 on "first N units" for every \<open>N\<close> and every unit.

  For the unit minute the code returns \<open>N * 60\<close> for every \<open>N\<close>: the rule "Nth minute",
  whose ordinal suffix is optional, matches "N minute" inside "first N minutes" and
  returns before the rule for "first" is tried. (For hours and seconds the parser does
  return 0: \<open>first_hours_parse\<close>, \<open>first_seconds_parse\<close>.)
\<close>

theorem first_minutes_parses_as_nth_minute:
  assumes "ds \<noteq> []" and "set ds \<subseteq> set digit_chars"
  shows "parseTimeString (''first '' @ ds @ '' minutes'') D = parseInt ds * 60"
  using nth_minute_rule_shadows [OF no_digit_consts(2) assms, of "''s''" D] by simp

text \<open>At "first 10 minutes" the parser returns 600, not 0.\<close>

theorem first_minutes_parses_as_nth_minute_witness:
  "parseTimeString ''first 10 minutes'' 10800 = 600"
proof -
  have d: "''10'' \<noteq> []" "set ''10'' \<subseteq> set digit_chars" by (simp_all add: digit_chars_def)
  have p: "parseInt ''10'' = 10" by code_simp
  from first_minutes_parses_as_nth_minute [OF d, of 10800] p show ?thesis by simp
qed

text \<open>
  Claim C7: for every duration, the range extracted from the utterance
  "from 1:00:00 to 1:30:00" starts at second 3600 and ends at second 5400. The explicit
  range pattern captures "1:00:00" and "1:30:00", and the parser reads each by the colon
  form, hours first.
\<close>

theorem from_to_scenario:
  "extractTimeRange ''from 1:00:00 to 1:30:00'' D = Some (3600, 5400)"
  by code_simp

text \<open>
  Claim C8: on the utterance "what's the sentiment of this video?" with chunks available,
  the router chooses the Sentiment intent: the range extractor, the timestamp extractor
  and the topic extractor find nothing, and the sentiment keywords match. This holds for
  every list of chunks, metadata, duration and store.
\<close>

theorem sentiment_scenario:
  "extractTimeRange ''what's the sentiment of this video?'' D = None \<and>
   extractMinuteOrTimestamp ''what's the sentiment of this video?'' = None \<and>
   extractTopic ''what's the sentiment of this video?'' = None \<and>
   isSentimentRequest ''what's the sentiment of this video?'' \<and>
   route e ''what's the sentiment of this video?'' videoId docs md D = Inr (Sentiment docs)"
  by code_simp

text \<open>
  Claim C9: when upstream retrieval throws, the error is caught and logged, no chunks are
  assumed, and the agent triggers the scrape and returns a message instead of propagating
  the error.

  The agent retrieves twice. The retrieval of the video's chunks (line 273) is inside
  \<^verbatim>\<open>try\<close>/\<^verbatim>\<open>catch\<close> and does what the claim says
  (\<open>first_retrieval_failure_triggers_scrape\<close>). The retrieval for a topic (line 316) is
  outside any \<^verbatim>\<open>try\<close>/\<^verbatim>\<open>catch\<close>: on the utterance below, with a store that answers
  the first retrieval and throws at the second, the error is the agent's result, nothing
  is logged and no scrape is triggered.
\<close>

theorem topic_retrieval_failure_propagates:
  "similaritySearch topic_broken_store [] 40 ''abc'' = Inr [sample_chunk] \<and>
   extractTopic ''https://youtu.be/abc explain the topic recursion'' = Some ''recursion'' \<and>
   similaritySearch topic_broken_store ''recursion'' 4 ''abc''
     = Inl (Thrown ''connection refused'') \<and>
   agent topic_broken_store ''https://youtu.be/abc explain the topic recursion''
     = \<lparr>logged = [], scrape_calls = [], result = Inl (Thrown ''connection refused'')\<rparr>"
  by code_simp

text \<open>
  Claim C10: on an utterance whose "Nth minute" phrase names minute 0, the timestamp
  extractor returns the minute 0, the router's test of that field is false, no segment is
  selected, and the query goes on to the topic step and the steps after it (from the
  start of the router when the range extractor finds nothing).
\<close>

theorem zeroth_minute_selects_nothing:
  assumes "search_re False re_nth_minute input = Some c" and "parseInt (cap c 1) = 0"
  shows "extractMinuteOrTimestamp input = Some (Minute 0) \<and>
         timestamp_segment docs (Minute 0) = [] \<and>
         route_timestamp e input videoId docs md = route_topic e input videoId docs md \<and>
         (extractTimeRange input D = None \<longrightarrow>
            route e input videoId docs md D = route_topic e input videoId docs md)"
  using assms
  by (simp add: extractMinuteOrTimestamp_def timestamp_segment_def route_timestamp_def route_def)

text \<open>On "what happened in the 0th minute?" the router ends in the summary of the whole video.\<close>

theorem zeroth_minute_selects_nothing_witness:
  "search_re False re_nth_minute ''what happened in the 0th minute?'' = Some [(1, ''0'')] \<and>
   extractTimeRange ''what happened in the 0th minute?'' 10800 = None \<and>
   extractMinuteOrTimestamp ''what happened in the 0th minute?'' = Some (Minute 0) \<and>
   timestamp_segment [sample_chunk] (Minute 0) = [] \<and>
   route (store_of [sample_chunk]) ''what happened in the 0th minute?'' ''abc'' [sample_chunk]
     (doc_metadata sample_chunk) 10800 = Inr (FullSummary [sample_chunk])"
proof -
  have m: "search_re False re_nth_minute ''what happened in the 0th minute?'' = Some [(1, ''0'')]"
    by code_simp
  have z: "parseInt (cap [(1, ''0'')] 1) = 0" by code_simp
  have r: "extractTimeRange ''what happened in the 0th minute?'' 10800 = None" by code_simp
  have t: "route_topic (store_of [sample_chunk]) ''what happened in the 0th minute?'' ''abc''
             [sample_chunk] (doc_metadata sample_chunk) = Inr (FullSummary [sample_chunk])"
    by code_simp
  from zeroth_minute_selects_nothing [OF m z, of "[sample_chunk]" "store_of [sample_chunk]"
      "''abc''" "doc_metadata sample_chunk" 10800] m r t
  show ?thesis by simp
qed

end
